theory Spec2Isabelle
  imports Complex_Main "HOL-Library.Word"
begin

section \<open>Numbers and typed arrays of the host language\<close>

text \<open>
  The processors are JavaScript classes. A JavaScript Number that is finite is modelled
  as an exact rational (\<^typ>\<open>rat\<close>): every integer of magnitude below \<open>2^53\<close> and every
  quotient of two such integers that the code stores into a pixel is handled exactly as
  the IEEE double computation handles it (see \<open>ToUint8Clamp\<close> below); rounding of doubles
  on other fractional inputs is not modelled. A Number that may be \<open>NaN\<close> is an option
  whose \<open>None\<close> is \<open>NaN\<close>; a value read from an array that may be \<open>undefined\<close> is an option
  whose \<open>None\<close> is \<open>undefined\<close>.
\<close>

type_synonym byte = "8 word"

text \<open>
  \<open>Uint8ClampedArray\<close> element conversion (ECMAScript \<open>ToUint8Clamp\<close>): \<open>NaN\<close> becomes 0,
  the number is clamped to \<open>[0, 255]\<close> and rounded to the nearest integer, a tie going to
  the even neighbour.
\<close>

definition ToUint8Clamp :: "rat option \<Rightarrow> byte" where
  "ToUint8Clamp v =
     (case v of
        None \<Rightarrow> 0
      | Some number \<Rightarrow>
          (let clamped = min (max number 0) 255;
               f = \<lfloor>clamped\<rfloor>
           in if clamped < of_int f + 1 / 2 then word_of_int f
              else if clamped > of_int f + 1 / 2 then word_of_int (f + 1)
              else if even f then word_of_int f
              else word_of_int (f + 1)))"

text \<open>
  A Number that may also be infinite or \<open>NaN\<close> (the duration and the frame rate of a
  video element), with the operations \<open>processVideo\<close> applies to such Numbers. The sign
  of zero is not modelled.
\<close>

datatype jsnum = Num rat | PosInf | NegInf | NaN

text \<open>\<open>a || b\<close> for a Number \<open>a\<close> that may be \<open>undefined\<close>: \<open>undefined\<close>, \<open>NaN\<close> and 0 are falsy.\<close>

fun js_or :: "jsnum option \<Rightarrow> jsnum \<Rightarrow> jsnum" where
  "js_or None b = b"
| "js_or (Some NaN) b = b"
| "js_or (Some (Num q)) b = (if q = 0 then b else Num q)"
| "js_or (Some PosInf) b = PosInf"
| "js_or (Some NegInf) b = NegInf"

text \<open>\<open>Math.min(a, b)\<close>.\<close>

fun js_min :: "jsnum \<Rightarrow> jsnum \<Rightarrow> jsnum" where
  "js_min NaN b = NaN"
| "js_min a NaN = NaN"
| "js_min NegInf b = NegInf"
| "js_min a NegInf = NegInf"
| "js_min PosInf b = b"
| "js_min a PosInf = a"
| "js_min (Num a) (Num b) = Num (min a b)"

text \<open>\<open>a * b\<close>: an infinity times zero is \<open>NaN\<close>.\<close>

fun js_inf_times :: "bool \<Rightarrow> rat \<Rightarrow> jsnum" where
  "js_inf_times positive q =
     (if q = 0 then NaN else if (0 < q) = positive then PosInf else NegInf)"

fun js_mul :: "jsnum \<Rightarrow> jsnum \<Rightarrow> jsnum" where
  "js_mul NaN b = NaN"
| "js_mul a NaN = NaN"
| "js_mul (Num a) (Num b) = Num (a * b)"
| "js_mul (Num a) PosInf = js_inf_times True a"
| "js_mul (Num a) NegInf = js_inf_times False a"
| "js_mul PosInf (Num b) = js_inf_times True b"
| "js_mul NegInf (Num b) = js_inf_times False b"
| "js_mul PosInf PosInf = PosInf"
| "js_mul NegInf NegInf = PosInf"
| "js_mul PosInf NegInf = NegInf"
| "js_mul NegInf PosInf = NegInf"

text \<open>\<open>Math.floor(a)\<close>, \<open>a <= 0\<close>, \<open>isFinite(a)\<close>, and \<open>i / a\<close> for a loop index \<open>i\<close>.\<close>

fun js_floor :: "jsnum \<Rightarrow> jsnum" where
  "js_floor (Num q) = Num (of_int \<lfloor>q\<rfloor>)"
| "js_floor a = a"

fun js_le0 :: "jsnum \<Rightarrow> bool" where
  "js_le0 (Num q) = (q \<le> 0)"
| "js_le0 NegInf = True"
| "js_le0 PosInf = False"
| "js_le0 NaN = False"

fun isFinite :: "jsnum \<Rightarrow> bool" where
  "isFinite (Num q) = True"
| "isFinite a = False"

fun js_index_div :: "nat \<Rightarrow> jsnum \<Rightarrow> jsnum" where
  "js_index_div i (Num q) =
     (if q = 0 then (if i = 0 then NaN else PosInf) else Num (of_nat i / q))"
| "js_index_div i PosInf = Num 0"
| "js_index_div i NegInf = Num 0"
| "js_index_div i NaN = NaN"

text \<open>The value of a Number known to be finite.\<close>

fun finite_value :: "jsnum \<Rightarrow> rat" where
  "finite_value (Num q) = q"
| "finite_value a = 0"

section \<open>Blur radius\<close>

text \<open>\<open>calculateBlurRadius\<close>, identical in \<open>ImageProcessor\<close> and \<open>VideoProcessor\<close>.\<close>

definition calculateBlurRadius :: "rat \<Rightarrow> rat \<Rightarrow> int" where
  "calculateBlurRadius regionWidth regionHeight =
     (let w = max 1 regionWidth;
          h = max 1 regionHeight;
          minDim = min w h;
          radius = \<lfloor>minDim * (5 / 100)\<rfloor>;
          radius = max 2 radius;
          radius = min 10 radius
      in radius)"



section \<open>Pixel arrays on a heap\<close>

text \<open>
  A \<open>Uint8ClampedArray\<close> is an object: two variables may name the same array. The heap
  is the list of all arrays allocated so far, an address is a position in it, and
  \<open>new Uint8ClampedArray(a)\<close> appends a copy of \<open>a\<close>.
\<close>

type_synonym addr = nat
type_synonym heap = "byte list list"

definition alloc :: "heap \<Rightarrow> byte list \<Rightarrow> addr \<times> heap" where
  "alloc h a = (length h, h @ [a])"

text \<open>
  Indexing a typed array with a Number \<open>q\<close>: only an integer \<open>0 \<le> q < length\<close> names an
  element. Reading any other index gives \<open>undefined\<close>; writing to it does nothing (a typed
  array is never extended).
\<close>

definition valid_index :: "byte list \<Rightarrow> rat \<Rightarrow> bool" where
  "valid_index a q \<longleftrightarrow> of_int \<lfloor>q\<rfloor> = q \<and> 0 \<le> q \<and> q < of_nat (length a)"

definition ta_get :: "byte list \<Rightarrow> rat \<Rightarrow> byte option" where
  "ta_get a q = (if valid_index a q then Some (a ! nat \<lfloor>q\<rfloor>) else None)"

definition ta_set :: "byte list \<Rightarrow> rat \<Rightarrow> rat option \<Rightarrow> byte list" where
  "ta_set a q v = (if valid_index a q then a[nat \<lfloor>q\<rfloor> := ToUint8Clamp v] else a)"

definition load :: "heap \<Rightarrow> addr \<Rightarrow> rat \<Rightarrow> byte option" where
  "load h p q = ta_get (h ! p) q"

definition store :: "heap \<Rightarrow> addr \<Rightarrow> rat \<Rightarrow> rat option \<Rightarrow> heap" where
  "store h p q v = h[p := ta_set (h ! p) q v]"

text \<open>\<open>ToNumber\<close> of a value read from a typed array: \<open>undefined\<close> becomes \<open>NaN\<close>.\<close>

definition to_number :: "byte option \<Rightarrow> rat option" where
  "to_number v = (case v of None \<Rightarrow> None | Some b \<Rightarrow> Some (of_nat (unat b)))"

text \<open>\<open>s += v\<close> and \<open>s / count\<close> on Numbers that may be \<open>NaN\<close> (\<open>count\<close> is positive where used).\<close>

definition js_add :: "rat option \<Rightarrow> byte option \<Rightarrow> rat option" where
  "js_add s v = (case (s, to_number v) of (Some a, Some b) \<Rightarrow> Some (a + b) | _ \<Rightarrow> None)"

definition js_div :: "rat option \<Rightarrow> nat \<Rightarrow> rat option" where
  "js_div s count = (case s of None \<Rightarrow> None | Some a \<Rightarrow> Some (a / of_nat count))"

section \<open>The box blur\<close>

record Region =
  regionX :: rat
  regionY :: rat
  regionWidth :: rat
  regionHeight :: rat

record ImageData =
  data :: addr
  width :: nat
  height :: nat

text \<open>
  \<open>applyBlurEffect\<close> is the same text in \<open>ImageProcessor\<close> and in \<open>VideoProcessor\<close>; one
  definition serves both. The accumulator of the kernel loops is
  \<open>(r_sum, g_sum, b_sum, count)\<close>.
\<close>

type_synonym rgb_sums = "rat option \<times> rat option \<times> rat option \<times> nat"

definition sample_pixel ::
  "heap \<Rightarrow> addr \<Rightarrow> nat \<Rightarrow> nat \<Rightarrow> rat \<Rightarrow> rat \<Rightarrow> int \<Rightarrow> int \<Rightarrow> rgb_sums \<Rightarrow> rgb_sums" where
  "sample_pixel h sourcePixels imageWidth imageHeight x y ky kx acc =
     (case acc of (r_sum, g_sum, b_sum, count) \<Rightarrow>
        let sampleX = x + of_int kx;
            sampleY = y + of_int ky
        in if sampleX \<ge> 0 \<and> sampleX < of_nat imageWidth \<and>
              sampleY \<ge> 0 \<and> sampleY < of_nat imageHeight
           then let sampleIdx = (sampleY * of_nat imageWidth + sampleX) * 4
                in (js_add r_sum (load h sourcePixels sampleIdx),
                    js_add g_sum (load h sourcePixels (sampleIdx + 1)),
                    js_add b_sum (load h sourcePixels (sampleIdx + 2)),
                    count + 1)
           else acc)"

definition kernel_sums :: "heap \<Rightarrow> addr \<Rightarrow> nat \<Rightarrow> nat \<Rightarrow> int \<Rightarrow> rat \<Rightarrow> rat \<Rightarrow> rgb_sums" where
  "kernel_sums h sourcePixels imageWidth imageHeight radius x y =
     fold (\<lambda>ky. fold (sample_pixel h sourcePixels imageWidth imageHeight x y ky)
                   [- radius..radius])
       [- radius..radius] (Some 0, Some 0, Some 0, 0)"

text \<open>The body of the two pixel loops: one pixel \<open>(x, y)\<close> of the region.\<close>

definition blur_pixel ::
  "addr \<Rightarrow> addr \<Rightarrow> int \<Rightarrow> nat \<Rightarrow> nat \<Rightarrow> rat \<Rightarrow> rat \<Rightarrow> heap \<Rightarrow> heap" where
  "blur_pixel targetPixels sourcePixels radius imageWidth imageHeight y x h =
     (case kernel_sums h sourcePixels imageWidth imageHeight radius x y of
        (r_sum, g_sum, b_sum, count) \<Rightarrow>
          let targetIdx = (y * of_nat imageWidth + x) * 4
          in if count > 0
             then let h = store h targetPixels targetIdx (js_div r_sum count);
                      h = store h targetPixels (targetIdx + 1) (js_div g_sum count);
                      h = store h targetPixels (targetIdx + 2) (js_div b_sum count);
                      h = store h targetPixels (targetIdx + 3)
                            (to_number (load h sourcePixels (targetIdx + 3)))
                  in h
             else let h = store h targetPixels targetIdx
                            (to_number (load h sourcePixels targetIdx));
                      h = store h targetPixels (targetIdx + 1)
                            (to_number (load h sourcePixels (targetIdx + 1)));
                      h = store h targetPixels (targetIdx + 2)
                            (to_number (load h sourcePixels (targetIdx + 2)));
                      h = store h targetPixels (targetIdx + 3)
                            (to_number (load h sourcePixels (targetIdx + 3)))
                  in h)"

text \<open>\<open>for (let x = regionX; x < regionX + regionWidth; x++)\<close>, with \<open>xend\<close> the bound.\<close>

function blur_row ::
  "addr \<Rightarrow> addr \<Rightarrow> int \<Rightarrow> nat \<Rightarrow> nat \<Rightarrow> rat \<Rightarrow> rat \<Rightarrow> rat \<Rightarrow> heap \<Rightarrow> heap" where
  "blur_row targetPixels sourcePixels radius imageWidth imageHeight y xend x h =
     (if x < xend
      then blur_row targetPixels sourcePixels radius imageWidth imageHeight y xend (x + 1)
             (blur_pixel targetPixels sourcePixels radius imageWidth imageHeight y x h)
      else h)"
  by pat_completeness auto

termination
proof (relation "measure (\<lambda>(t, s, r, w, h, y, xend, x, hp). nat \<lceil>xend - x\<rceil>)")
  show "wf (measure (\<lambda>(t, s, r, w, h, y, xend, x, hp). nat \<lceil>xend - x\<rceil>))"
    by simp
next
  fix t s :: addr and r :: int and w h :: nat and y xend x :: rat and hp :: heap
  assume lt: "x < xend"
  have "xend - (x + 1) = (xend - x) - 1"
    by simp
  then have "\<lceil>xend - (x + 1)\<rceil> = \<lceil>xend - x\<rceil> - 1"
    by (simp only: ceiling_diff_one)
  moreover from lt have "0 < \<lceil>xend - x\<rceil>"
    by simp
  ultimately show "((t, s, r, w, h, y, xend, x + 1, blur_pixel t s r w h y x hp),
                    (t, s, r, w, h, y, xend, x, hp))
                  \<in> measure (\<lambda>(t, s, r, w, h, y, xend, x, hp). nat \<lceil>xend - x\<rceil>)"
    by simp
qed

text \<open>\<open>for (let y = regionY; y < regionY + regionHeight; y++)\<close>, with \<open>yend\<close> the bound.\<close>

function blur_rows ::
  "addr \<Rightarrow> addr \<Rightarrow> int \<Rightarrow> nat \<Rightarrow> nat \<Rightarrow> rat \<Rightarrow> rat \<Rightarrow> rat \<Rightarrow> rat \<Rightarrow> heap \<Rightarrow> heap" where
  "blur_rows targetPixels sourcePixels radius imageWidth imageHeight xstart xend yend y h =
     (if y < yend
      then blur_rows targetPixels sourcePixels radius imageWidth imageHeight xstart xend yend
             (y + 1)
             (blur_row targetPixels sourcePixels radius imageWidth imageHeight y xend xstart h)
      else h)"
  by pat_completeness auto

termination
proof (relation "measure (\<lambda>(t, s, r, w, h, xs, xe, yend, y, hp). nat \<lceil>yend - y\<rceil>)")
  show "wf (measure (\<lambda>(t, s, r, w, h, xs, xe, yend, y, hp). nat \<lceil>yend - y\<rceil>))"
    by simp
next
  fix t s :: addr and r :: int and w h :: nat and xs xe yend y :: rat and hp :: heap
  assume lt: "y < yend"
  have "yend - (y + 1) = (yend - y) - 1"
    by simp
  then have "\<lceil>yend - (y + 1)\<rceil> = \<lceil>yend - y\<rceil> - 1"
    by (simp only: ceiling_diff_one)
  moreover from lt have "0 < \<lceil>yend - y\<rceil>"
    by simp
  ultimately show "((t, s, r, w, h, xs, xe, yend, y + 1, blur_row t s r w h y xe xs hp),
                    (t, s, r, w, h, xs, xe, yend, y, hp))
                  \<in> measure (\<lambda>(t, s, r, w, h, xs, xe, yend, y, hp). nat \<lceil>yend - y\<rceil>)"
    by simp
qed

declare blur_row.simps [simp del] blur_rows.simps [simp del]

definition applyBlurEffect ::
  "addr \<Rightarrow> addr \<Rightarrow> Region \<Rightarrow> int \<Rightarrow> nat \<Rightarrow> nat \<Rightarrow> heap \<Rightarrow> heap" where
  "applyBlurEffect targetPixels sourcePixels region radius imageWidth imageHeight h =
     blur_rows targetPixels sourcePixels radius imageWidth imageHeight
       (regionX region) (regionX region + regionWidth region)
       (regionY region + regionHeight region) (regionY region) h"

section \<open>The two entry points\<close>

datatype error =
    InvalidRegion           \<comment> \<open>"Watermark region is invalid or outside image boundaries. ..."\<close>
  | InvalidSource           \<comment> \<open>"Invalid video duration or frame rate, cannot process."\<close>
  | DimensionsUnavailable   \<comment> \<open>"Could not determine video dimensions for processing."\<close>
  | NoFramesProcessed       \<comment> \<open>"No frames were processed. Video processing failed."\<close>
  | ExtractionFailed        \<comment> \<open>a rejection of \<open>extractFrame\<close>\<close>

datatype log_entry =
    InvalidRegionLogged Region nat nat   \<comment> \<open>\<open>console.error\<close> of the region and the dimensions\<close>
  | FrameErrorLogged jsnum error         \<comment> \<open>\<open>console.error\<close> of the timestamp and the error\<close>

record js_state =
  heap :: heap
  console :: "log_entry list"
  seeks :: "jsnum list"

text \<open>
  The validation both entry points write out. \<open>ImageData\<close> objects come from the canvas,
  whose \<open>data\<close> has \<open>4 * width * height\<close> elements.
\<close>

definition region_invalid :: "Region \<Rightarrow> nat \<Rightarrow> nat \<Rightarrow> bool" where
  "region_invalid watermarkRegion imageWidth imageHeight =
     (let x = regionX watermarkRegion; y = regionY watermarkRegion;
          width = regionWidth watermarkRegion; height = regionHeight watermarkRegion
      in x < 0 \<or> y < 0 \<or> x + width > of_nat imageWidth \<or> y + height > of_nat imageHeight
         \<or> width \<le> 0 \<or> height \<le> 0)"

text \<open>\<open>ImageProcessor.removeWatermark\<close>: throws on an invalid region.\<close>

definition removeWatermark ::
  "ImageData \<Rightarrow> Region \<Rightarrow> js_state \<Rightarrow> (error + ImageData) \<times> js_state" where
  "removeWatermark imageData watermarkRegion st =
     (let imageWidth = width imageData;
          imageHeight = height imageData
      in if region_invalid watermarkRegion imageWidth imageHeight
         then (Inl InvalidRegion,
               st\<lparr>console := console st
                      @ [InvalidRegionLogged watermarkRegion imageWidth imageHeight]\<rparr>)
         else let originalPixels = data imageData;
                  (processedPixels, h) = alloc (heap st) (heap st ! originalPixels);
                  blurRadius = calculateBlurRadius (regionWidth watermarkRegion)
                                 (regionHeight watermarkRegion);
                  h = applyBlurEffect processedPixels originalPixels watermarkRegion
                        blurRadius imageWidth imageHeight h
              in (Inr \<lparr>data = processedPixels, width = imageWidth, height = imageHeight\<rparr>,
                  st\<lparr>heap := h\<rparr>))"

text \<open>\<open>VideoProcessor.blurWatermark\<close>: returns the frame it was given on an invalid region.\<close>

definition blurWatermark :: "ImageData \<Rightarrow> Region \<Rightarrow> js_state \<Rightarrow> ImageData \<times> js_state" where
  "blurWatermark frameData watermarkRegion st =
     (let imageWidth = width frameData;
          imageHeight = height frameData
      in if region_invalid watermarkRegion imageWidth imageHeight
         then (frameData,
               st\<lparr>console := console st
                      @ [InvalidRegionLogged watermarkRegion imageWidth imageHeight]\<rparr>)
         else let originalPixels = data frameData;
                  (processedPixels, h) = alloc (heap st) (heap st ! originalPixels);
                  blurRadius = calculateBlurRadius (regionWidth watermarkRegion)
                                 (regionHeight watermarkRegion);
                  h = applyBlurEffect processedPixels originalPixels watermarkRegion
                        blurRadius imageWidth imageHeight h
              in (\<lparr>data = processedPixels, width = imageWidth, height = imageHeight\<rparr>,
                  st\<lparr>heap := h\<rparr>))"

section \<open>The video frame pipeline\<close>

text \<open>A frame by value: its pixels, width and height.\<close>

type_synonym frame = "byte list \<times> nat \<times> nat"

text \<open>
  A promise is pending for ever, rejected with an error, or resolved with a value.
\<close>

datatype 'a outcome = Pending | Rejected error | Resolved 'a

text \<open>
  The video element as \<open>processVideo\<close> reads it, with what the browser will do to it:
  \<open>metadata_event\<close> is the \<open>videoWidth\<close> and \<open>videoHeight\<close> at the moment \<open>loadedmetadata\<close>
  fires (\<open>None\<close> when it never does), and \<open>frame_at t\<close> is how the promise of
  \<open>extractFrame(videoElement, t)\<close> settles: with the pixels, width and height that
  \<open>getImageData\<close> returns, with a rejection, or never. Seeking and decoding are the
  browser's; \<open>extractFrame\<close> is taken as this function.
\<close>

record VideoElement =
  duration :: jsnum
  captureFrameRate :: "jsnum option"
  videoWidth :: nat
  videoHeight :: nat
  readyState :: nat
  metadata_event :: "(nat \<times> nat) option"
  frame_at :: "jsnum \<Rightarrow> frame outcome"

text \<open>
  The canvas sizing before the loop: the promise awaited in the \<open>else\<close> branch resolves at
  once when \<open>readyState >= 1\<close> and on \<open>loadedmetadata\<close> otherwise.
\<close>

definition resolve_dimensions :: "VideoElement \<Rightarrow> (nat \<times> nat) outcome" where
  "resolve_dimensions videoElement =
     (if videoWidth videoElement > 0 \<and> videoHeight videoElement > 0
      then Resolved (videoWidth videoElement, videoHeight videoElement)
      else case (if readyState videoElement \<ge> 1
                 then Some (videoWidth videoElement, videoHeight videoElement)
                 else metadata_event videoElement) of
             None \<Rightarrow> Pending
           | Some (canvas_width, canvas_height) \<Rightarrow>
               if canvas_width = 0 \<or> canvas_height = 0
               then Rejected DimensionsUnavailable
               else Resolved (canvas_width, canvas_height))"

text \<open>
  The body of the frame loop at index \<open>i\<close>: the \<open>try\<close> block and its \<open>catch\<close>. \<open>None\<close> is
  returned when the extraction never settles. The optional progress callback is left
  out: it is given a percentage and touches neither the frames nor the heap.
\<close>

definition frame_step ::
  "VideoElement \<Rightarrow> Region \<Rightarrow> jsnum \<Rightarrow> nat \<Rightarrow> ImageData list \<Rightarrow> js_state
   \<Rightarrow> ImageData list option \<times> js_state" where
  "frame_step videoElement watermarkRegion frameRate i processedFrames st =
     (let timeInSeconds = js_index_div i frameRate;
          st = st\<lparr>seeks := seeks st @ [timeInSeconds]\<rparr>
      in case frame_at videoElement timeInSeconds of
           Pending \<Rightarrow> (None, st)
         | Rejected err \<Rightarrow>
             (Some processedFrames,
              st\<lparr>console := console st @ [FrameErrorLogged timeInSeconds err]\<rparr>)
         | Resolved (pixels, w, h) \<Rightarrow>
             let (p, hp) = alloc (heap st) pixels;
                 frameData = \<lparr>data = p, width = w, height = h\<rparr>;
                 (processedFrame, st) = blurWatermark frameData watermarkRegion (st\<lparr>heap := hp\<rparr>)
             in (Some (processedFrames @ [processedFrame]), st))"

text \<open>\<open>for (let i = 0; i < totalFramesToProcess; i++)\<close>, with the finite bound as a rational.\<close>

function frame_loop ::
  "VideoElement \<Rightarrow> Region \<Rightarrow> jsnum \<Rightarrow> rat \<Rightarrow> nat \<Rightarrow> ImageData list \<Rightarrow> js_state
   \<Rightarrow> ImageData list option \<times> js_state" where
  "frame_loop videoElement watermarkRegion frameRate totalFrames i
     processedFrames st =
     (if of_nat i < totalFrames
      then case frame_step videoElement watermarkRegion frameRate i processedFrames st of
             (None, st) \<Rightarrow> (None, st)
           | (Some processedFrames, st) \<Rightarrow>
               frame_loop videoElement watermarkRegion frameRate totalFrames
                 (i + 1) processedFrames st
      else (Some processedFrames, st))"
  by pat_completeness auto

termination
proof (relation "measure (\<lambda>(v, r, fr, totalFrames, i, fs, st). nat \<lceil>totalFrames - of_nat i\<rceil>)")
  show "wf (measure (\<lambda>(v, r, fr, totalFrames, i, fs, st). nat \<lceil>totalFrames - of_nat i\<rceil>))"
    by simp
next
  fix v :: VideoElement and r :: Region and fr :: jsnum and totalFrames :: rat and i :: nat
    and fs fs' :: "ImageData list" and st st' :: js_state
  assume lt: "of_nat i < totalFrames"
  have "totalFrames - of_nat (i + 1) = (totalFrames - of_nat i) - 1"
    by simp
  then have "\<lceil>totalFrames - of_nat (i + 1)\<rceil> = \<lceil>totalFrames - of_nat i\<rceil> - 1"
    by (simp only: ceiling_diff_one)
  moreover from lt have "0 < \<lceil>totalFrames - of_nat i\<rceil>"
    by simp
  ultimately show "((v, r, fr, totalFrames, i + 1, fs', st'), (v, r, fr, totalFrames, i, fs, st))
                  \<in> measure (\<lambda>(v, r, fr, totalFrames, i, fs, st). nat \<lceil>totalFrames - of_nat i\<rceil>)"
    by simp
qed

declare frame_loop.simps [simp del]

text \<open>The two constants \<open>processVideo\<close> computes first.\<close>

definition processingFrameRate :: "VideoElement \<Rightarrow> jsnum" where
  "processingFrameRate videoElement =
     js_min (Num 30) (js_or (captureFrameRate videoElement) (Num 30))"

definition totalFramesToProcess :: "VideoElement \<Rightarrow> jsnum" where
  "totalFramesToProcess videoElement =
     js_floor (js_mul (duration videoElement) (processingFrameRate videoElement))"

text \<open>
  \<open>VideoProcessor.processVideo\<close>. A resolved outcome carries the two arguments of the final
  \<open>assembleVideo\<close> call, the recorder behind it being the browser's.
\<close>

definition processVideo ::
  "VideoElement \<Rightarrow> Region \<Rightarrow> js_state \<Rightarrow> (ImageData list \<times> jsnum) outcome \<times> js_state" where
  "processVideo videoElement watermarkRegion st =
     (if js_le0 (totalFramesToProcess videoElement)
         \<or> \<not> isFinite (totalFramesToProcess videoElement)
      then (Rejected InvalidSource, st)
      else case resolve_dimensions videoElement of
             Pending \<Rightarrow> (Pending, st)
           | Rejected err \<Rightarrow> (Rejected err, st)
           | Resolved canvas_size \<Rightarrow>
               (case frame_loop videoElement watermarkRegion (processingFrameRate videoElement)
                       (finite_value (totalFramesToProcess videoElement)) 0 [] st of
                  (None, st) \<Rightarrow> (Pending, st)
                | (Some processedFrames, st) \<Rightarrow>
                    if length processedFrames = 0
                    then (Rejected NoFramesProcessed, st)
                    else (Resolved (processedFrames, processingFrameRate videoElement), st)))"

text \<open>The sample indices of a run whose sample count passed the check.\<close>

definition sample_indices :: "VideoElement \<Rightarrow> nat list" where
  "sample_indices videoElement = [0..<nat \<lfloor>finite_value (totalFramesToProcess videoElement)\<rfloor>]"

text \<open>
  The end-to-end scenario of the specification: a source of ten sampled frames (a third
  of a second at 30 frames a second), all the same 2 by 2 checkerboard, whose extraction
  fails at index 5 alone; and a source whose dimensions are never known.
\<close>

definition checkerboard :: frame where
  "checkerboard = ([255, 255, 255, 255, 0, 0, 0, 255, 0, 0, 0, 255, 255, 255, 255, 255], 2, 2)"

definition fails_at_5 :: "jsnum \<Rightarrow> frame outcome" where
  "fails_at_5 t = (if t = Num (5 / 30) then Rejected ExtractionFailed else Resolved checkerboard)"

definition ten_frames :: VideoElement where
  "ten_frames =
     \<lparr>duration = Num (1 / 3), captureFrameRate = None, videoWidth = 2, videoHeight = 2,
      readyState = 4, metadata_event = None, frame_at = fails_at_5\<rparr>"


definition empty_state :: js_state where
  "empty_state = \<lparr>heap = [], console = [], seeks = []\<rparr>"

section \<open>The blur as the specification words it\<close>

text \<open>
  A rectangle of the data model has integer fields; \<open>int_region x y w h\<close> is the region
  with the natural numbers \<open>x\<close>, \<open>y\<close>, \<open>w\<close>, \<open>h\<close> as its fields. Pixel \<open>(px, py)\<close> of an
  image \<open>W\<close> pixels wide has its red sample at \<open>pixel_index W px py\<close>, then green, blue
  and alpha.
\<close>

definition int_region :: "nat \<Rightarrow> nat \<Rightarrow> nat \<Rightarrow> nat \<Rightarrow> Region" where
  "int_region x y w h =
     \<lparr>regionX = of_nat x, regionY = of_nat y, regionWidth = of_nat w, regionHeight = of_nat h\<rparr>"

definition pixel_index :: "nat \<Rightarrow> nat \<Rightarrow> nat \<Rightarrow> nat" where
  "pixel_index W px py = 4 * (py * W + px)"

definition in_region :: "nat \<Rightarrow> nat \<Rightarrow> nat \<Rightarrow> nat \<Rightarrow> nat \<Rightarrow> nat \<Rightarrow> bool" where
  "in_region x y w h px py \<longleftrightarrow> x \<le> px \<and> px < x + w \<and> y \<le> py \<and> py < y + h"

text \<open>
  The kernel offsets \<open>(ky, kx)\<close> with both components in \<open>[-radius, radius]\<close>, and those of
  them whose sample coordinate \<open>(px + kx, py + ky)\<close> lies inside the \<open>W\<close> by \<open>H\<close> image.
\<close>

definition kernel_offsets :: "int \<Rightarrow> (int \<times> int) list" where
  "kernel_offsets radius = List.product [- radius..radius] [- radius..radius]"

definition in_bounds :: "nat \<Rightarrow> nat \<Rightarrow> nat \<Rightarrow> nat \<Rightarrow> int \<times> int \<Rightarrow> bool" where
  "in_bounds W H px py k =
     (case k of (ky, kx) \<Rightarrow>
        0 \<le> int px + kx \<and> int px + kx < int W \<and> 0 \<le> int py + ky \<and> int py + ky < int H)"

definition samples :: "nat \<Rightarrow> nat \<Rightarrow> int \<Rightarrow> nat \<Rightarrow> nat \<Rightarrow> (nat \<times> nat) list" where
  "samples W H radius px py =
     map (\<lambda>(ky, kx). (nat (int px + kx), nat (int py + ky)))
       (filter (in_bounds W H px py) (kernel_offsets radius))"

text \<open>
  The sum of channel \<open>c\<close> over the in-bounds samples, and the arithmetic mean: that sum
  divided by the number of in-bounds samples.
\<close>

definition channel_sum :: "byte list \<Rightarrow> nat \<Rightarrow> nat \<Rightarrow> int \<Rightarrow> nat \<Rightarrow> nat \<Rightarrow> nat \<Rightarrow> nat" where
  "channel_sum src W H radius px py c =
     sum_list (map (\<lambda>(sx, sy). unat (src ! (pixel_index W sx sy + c)))
                (samples W H radius px py))"

definition channel_mean :: "byte list \<Rightarrow> nat \<Rightarrow> nat \<Rightarrow> int \<Rightarrow> nat \<Rightarrow> nat \<Rightarrow> nat \<Rightarrow> rat" where
  "channel_mean src W H radius px py c =
     of_nat (channel_sum src W H radius px py c)
       / of_nat (length (samples W H radius px py))"

text \<open>
  The value the blur gives to channel \<open>c\<close> of a pixel of the region: the source sample
  when nothing was summed, the source alpha for channel 3, and otherwise the mean as a
  \<open>Uint8ClampedArray\<close> stores it.
\<close>

definition pixel_out :: "byte list \<Rightarrow> nat \<Rightarrow> nat \<Rightarrow> int \<Rightarrow> nat \<Rightarrow> nat \<Rightarrow> nat \<Rightarrow> byte" where
  "pixel_out src W H radius px py c =
     (if samples W H radius px py = [] \<or> c = 3 then src ! (pixel_index W px py + c)
      else ToUint8Clamp (Some (channel_mean src W H radius px py c)))"

text \<open>
  The four samples of a pixel written at once, one pixel of the region written so, the
  pixels of a region row by row, and the whole output buffer: every sample of a pixel of
  the region is \<open>pixel_out\<close> of the source, every other sample is the source's.
\<close>

definition upd4 :: "byte list \<Rightarrow> nat \<Rightarrow> (nat \<Rightarrow> byte) \<Rightarrow> byte list" where
  "upd4 a i f = a[i := f 0, i + 1 := f 1, i + 2 := f 2, i + 3 := f 3]"

definition pix_step :: "byte list \<Rightarrow> nat \<Rightarrow> nat \<Rightarrow> int \<Rightarrow> nat \<times> nat \<Rightarrow> byte list \<Rightarrow> byte list" where
  "pix_step src W H radius p a =
     (case p of (px, py) \<Rightarrow> upd4 a (pixel_index W px py) (pixel_out src W H radius px py))"

definition region_pixels :: "nat \<Rightarrow> nat \<Rightarrow> nat \<Rightarrow> nat \<Rightarrow> (nat \<times> nat) list" where
  "region_pixels x y w h = concat (map (\<lambda>py. map (\<lambda>px. (px, py)) [x..<x + w]) [y..<y + h])"

definition blur_spec ::
  "byte list \<Rightarrow> nat \<Rightarrow> nat \<Rightarrow> int \<Rightarrow> nat \<Rightarrow> nat \<Rightarrow> nat \<Rightarrow> nat \<Rightarrow> byte list" where
  "blur_spec src W H radius x y w h =
     map (\<lambda>j. if in_region x y w h (j div 4 mod W) (j div 4 div W)
              then pixel_out src W H radius (j div 4 mod W) (j div 4 div W) (j mod 4)
              else src ! j)
       [0..<4 * W * H]"

definition uniform :: "nat \<Rightarrow> byte \<Rightarrow> byte \<Rightarrow> byte \<Rightarrow> byte \<Rightarrow> byte list" where
  "uniform n r g b a = concat (replicate n [r, g, b, a])"

text \<open>
  \<open>writes_only t h h'\<close>: going from heap \<open>h\<close> to \<open>h'\<close> no array was allocated, no array
  other than the one at \<open>t\<close> changed, and the one at \<open>t\<close> kept its length.
\<close>

definition writes_only :: "addr \<Rightarrow> heap \<Rightarrow> heap \<Rightarrow> bool" where
  "writes_only t h h' \<longleftrightarrow>
     length h' = length h \<and> (\<forall>p. p \<noteq> t \<longrightarrow> h' ! p = h ! p) \<and> length (h' ! t) = length (h ! t)"

text \<open>
  \<open>frame_content\<close> reads an image object of the heap as a frame, and \<open>blurred_frame\<close> is
  the frame \<open>blurWatermark\<close> returns for a frame that is alone on the heap.
\<close>

definition frame_content :: "js_state \<Rightarrow> ImageData \<Rightarrow> frame" where
  "frame_content st img = (heap st ! data img, width img, height img)"

definition blurred_frame :: "Region \<Rightarrow> frame \<Rightarrow> frame" where
  "blurred_frame region fr =
     (case fr of (pixels, w, h) \<Rightarrow>
        case blurWatermark \<lparr>data = 0, width = w, height = h\<rparr> region
               \<lparr>heap = [pixels], console = [], seeks = []\<rparr> of
          (img, st) \<Rightarrow> frame_content st img)"

text \<open>
  Of the sample indices \<open>is\<close>, in order: the frames whose extraction succeeds, and the
  console entries of those whose extraction fails.
\<close>

fun extracted :: "VideoElement \<Rightarrow> jsnum \<Rightarrow> nat list \<Rightarrow> frame list" where
  "extracted v rate [] = []"
| "extracted v rate (i # is) =
     (case frame_at v (js_index_div i rate) of
        Resolved fr \<Rightarrow> fr # extracted v rate is
      | _ \<Rightarrow> extracted v rate is)"

fun failures :: "VideoElement \<Rightarrow> jsnum \<Rightarrow> nat list \<Rightarrow> log_entry list" where
  "failures v rate [] = []"
| "failures v rate (i # is) =
     (case frame_at v (js_index_div i rate) of
        Rejected e \<Rightarrow> FrameErrorLogged (js_index_div i rate) e # failures v rate is
      | _ \<Rightarrow> failures v rate is)"

fun is_frame_error :: "log_entry \<Rightarrow> bool" where
  "is_frame_error (FrameErrorLogged t e) = True"
| "is_frame_error (InvalidRegionLogged r w h) = False"

section \<open>Auxiliary lemmas\<close>

subsection \<open>What a blur may write\<close>

lemma length_ta_set [simp]: "length (ta_set a q v) = length a"
  by (simp add: ta_set_def)

lemma length_store [simp]: "length (store h p q v) = length h"
  by (simp add: store_def)

lemma store_other [simp]: "p' \<noteq> p \<Longrightarrow> store h p q v ! p' = h ! p'"
  by (simp add: store_def)

lemma store_same: "p < length h \<Longrightarrow> store h p q v ! p = ta_set (h ! p) q v"
  by (simp add: store_def)

lemma writes_only_refl: "writes_only t h h"
  by (simp add: writes_only_def)

lemma writes_only_trans:
  "writes_only t h h' \<Longrightarrow> writes_only t h' h'' \<Longrightarrow> writes_only t h h''"
  by (simp add: writes_only_def)

lemma writes_only_store: "writes_only t h (store h t q v)"
proof (cases "t < length h")
  case True
  then show ?thesis by (simp add: writes_only_def store_same)
next
  case False
  then have "store h t q v = h" by (simp add: store_def list_update_beyond)
  then show ?thesis by (simp add: writes_only_def)
qed

lemma writes_only_store4:
  "writes_only t h
     (store (store (store (store h t q0 v0) t q1 v1) t q2 v2) t q3 v3)"
  by (meson writes_only_store writes_only_trans)

lemma writes_only_blur_pixel: "writes_only t h (blur_pixel t s r w hh y x h)"
proof -
  obtain rs gs bs n where k: "kernel_sums h s w hh r x y = (rs, gs, bs, n)"
    by (cases "kernel_sums h s w hh r x y") auto
  show ?thesis
    unfolding blur_pixel_def k Let_def prod.case
    by (simp add: writes_only_store4 del: One_nat_def)
qed

lemma writes_only_blur_row: "writes_only t h (blur_row t s r w hh y xend x h)"
proof (induction t s r w hh y xend x h rule: blur_row.induct)
  case (1 t s r w hh y xend x h)
  show ?case
  proof (cases "x < xend")
    case True
    have "writes_only t h (blur_pixel t s r w hh y x h)"
      by (rule writes_only_blur_pixel)
    moreover have "writes_only t (blur_pixel t s r w hh y x h)
        (blur_row t s r w hh y xend (x + 1) (blur_pixel t s r w hh y x h))"
      using True by (rule "1.IH")
    ultimately show ?thesis
      using True by (subst blur_row.simps) (simp add: writes_only_trans)
  next
    case False
    then show ?thesis
      by (subst blur_row.simps) (simp add: writes_only_refl)
  qed
qed

lemma writes_only_blur_rows: "writes_only t h (blur_rows t s r w hh xs xe yend y h)"
proof (induction t s r w hh xs xe yend y h rule: blur_rows.induct)
  case (1 t s r w hh xs xe yend y h)
  show ?case
  proof (cases "y < yend")
    case True
    have "writes_only t h (blur_row t s r w hh y xe xs h)"
      by (rule writes_only_blur_row)
    moreover have "writes_only t (blur_row t s r w hh y xe xs h)
        (blur_rows t s r w hh xs xe yend (y + 1) (blur_row t s r w hh y xe xs h))"
      using True by (rule "1.IH")
    ultimately show ?thesis
      using True by (subst blur_rows.simps) (simp add: writes_only_trans)
  next
    case False
    then show ?thesis
      by (subst blur_rows.simps) (simp add: writes_only_refl)
  qed
qed

lemma writes_only_applyBlurEffect:
  "writes_only t h (applyBlurEffect t s region r w hh h)"
  by (simp add: applyBlurEffect_def writes_only_blur_rows)

lemma writes_only_fresh:
  assumes "writes_only (length h) (h @ [a]) h2"
  shows "length h2 = Suc (length h)" and "\<forall>p<length h. h2 ! p = h ! p"
    and "length (h2 ! length h) = length a"
  using assms by (simp_all add: writes_only_def nth_append)

subsection \<open>The two branches of the entry points\<close>

lemma region_invalid_iff:
  "region_invalid r w h \<longleftrightarrow>
     regionX r < 0 \<or> regionY r < 0 \<or> regionX r + regionWidth r > of_nat w
     \<or> regionY r + regionHeight r > of_nat h \<or> regionWidth r \<le> 0 \<or> regionHeight r \<le> 0"
  by (simp add: region_invalid_def Let_def)

lemma removeWatermark_invalid:
  "region_invalid r (width img) (height img) \<Longrightarrow>
   removeWatermark img r st =
     (Inl InvalidRegion,
      st\<lparr>console := console st @ [InvalidRegionLogged r (width img) (height img)]\<rparr>)"
  by (simp add: removeWatermark_def Let_def)

lemma removeWatermark_valid:
  "\<not> region_invalid r (width img) (height img) \<Longrightarrow>
   removeWatermark img r st =
     (Inr \<lparr>data = length (heap st), width = width img, height = height img\<rparr>,
      st\<lparr>heap := applyBlurEffect (length (heap st)) (data img) r
                     (calculateBlurRadius (regionWidth r) (regionHeight r))
                     (width img) (height img) (heap st @ [heap st ! data img])\<rparr>)"
  by (simp add: removeWatermark_def alloc_def Let_def)

lemma blurWatermark_invalid:
  "region_invalid r (width img) (height img) \<Longrightarrow>
   blurWatermark img r st =
     (img, st\<lparr>console := console st @ [InvalidRegionLogged r (width img) (height img)]\<rparr>)"
  by (simp add: blurWatermark_def Let_def)

lemma blurWatermark_valid:
  "\<not> region_invalid r (width img) (height img) \<Longrightarrow>
   blurWatermark img r st =
     (\<lparr>data = length (heap st), width = width img, height = height img\<rparr>,
      st\<lparr>heap := applyBlurEffect (length (heap st)) (data img) r
                     (calculateBlurRadius (regionWidth r) (regionHeight r))
                     (width img) (height img) (heap st @ [heap st ! data img])\<rparr>)"
  by (simp add: blurWatermark_def alloc_def Let_def)

subsection \<open>Typed arrays at natural-number indices\<close>

lemma valid_index_of_nat: "valid_index a (of_nat n) \<longleftrightarrow> n < length a"
  by (simp add: valid_index_def)

lemma ta_get_of_nat: "ta_get a (of_nat n) = (if n < length a then Some (a ! n) else None)"
  by (simp add: ta_get_def valid_index_of_nat)

lemma ta_set_of_nat: "ta_set a (of_nat n) v = a[n := ToUint8Clamp v]"
  by (simp add: ta_set_def valid_index_of_nat list_update_beyond)

lemma ToUint8Clamp_nat:
  assumes "n \<le> 255"
  shows "ToUint8Clamp (Some (of_nat n)) = of_nat n"
proof -
  from assms have "(of_nat n :: rat) \<le> 255"
    by (metis of_nat_le_iff of_nat_numeral)
  then have "min (max (of_nat n :: rat) 0) 255 = of_nat n"
    by simp
  then show ?thesis
    by (simp add: ToUint8Clamp_def Let_def)
qed

lemma ToUint8Clamp_byte: "ToUint8Clamp (to_number (Some b)) = b"
proof -
  have "unat b < 2 ^ 8" using unsigned_less [of b, where ?'a = nat] by simp
  then have "unat b \<le> 255" by simp
  from ToUint8Clamp_nat [OF this] show ?thesis
    by (simp add: to_number_def)
qed

lemma pixel_in_range:
  assumes "sx < W" "sy < H"
  shows "pixel_index W sx sy + 3 < 4 * W * H"
proof -
  have "sy * W + sx < Suc sy * W" using assms(1) by simp
  also have "\<dots> \<le> H * W" using assms(2) by (intro mult_le_mono1) simp
  finally have "sy * W + sx < W * H" by (simp add: mult.commute)
  then have "4 * (sy * W + sx) + 3 < 4 * (W * H)" by simp
  then show ?thesis by (simp add: pixel_index_def)
qed

subsection \<open>The kernel sums of a pixel with integer coordinates\<close>

lemma js_add_Some: "js_add (Some (of_nat a)) (Some b) = Some (of_nat (a + unat b))"
  by (simp add: js_add_def to_number_def)

lemma load_of_nat:
  "i < length (h ! s) \<Longrightarrow> load h s (of_nat i) = Some (h ! s ! i)"
  by (simp add: load_def ta_get_of_nat)

lemma bounds_cond:
  "((0::rat) \<le> of_nat p + of_int k \<and> (of_nat p + of_int k :: rat) < of_nat N)
   \<longleftrightarrow> (0 \<le> int p + k \<and> int p + k < int N)"
proof -
  have e: "(of_nat p + of_int k :: rat) = of_int (int p + k)"
    by simp
  have n: "(of_nat N :: rat) = of_int (int N)"
    by simp
  show ?thesis
    unfolding e n by (simp only: of_int_0_le_iff of_int_less_iff)
qed

lemma sample_pixel_out:
  assumes "\<not> in_bounds W H px py (ky, kx)"
  shows "sample_pixel h s W H (of_nat px) (of_nat py) ky kx acc = acc"
proof -
  from assms bounds_cond [of px kx W] bounds_cond [of py ky H]
  have "\<not> ((0::rat) \<le> of_nat px + of_int kx \<and> (of_nat px + of_int kx :: rat) < of_nat W
           \<and> (0::rat) \<le> of_nat py + of_int ky \<and> (of_nat py + of_int ky :: rat) < of_nat H)"
    unfolding in_bounds_def prod.case by blast
  then show ?thesis
    unfolding sample_pixel_def Let_def by (cases acc) (simp only: prod.case if_False)
qed

lemma sample_pixel_in:
  assumes len: "length (h ! s) = 4 * W * H"
    and inb: "in_bounds W H px py (ky, kx)"
  shows "sample_pixel h s W H (of_nat px) (of_nat py) ky kx
           (Some (of_nat a), Some (of_nat b), Some (of_nat c), n)
         = (Some (of_nat (a + unat (h ! s ! (pixel_index W (nat (int px + kx)) (nat (int py + ky)))))),
            Some (of_nat (b + unat (h ! s ! (pixel_index W (nat (int px + kx)) (nat (int py + ky)) + 1)))),
            Some (of_nat (c + unat (h ! s ! (pixel_index W (nat (int px + kx)) (nat (int py + ky)) + 2)))),
            Suc n)"
proof -
  define sx where "sx = nat (int px + kx)"
  define sy where "sy = nat (int py + ky)"
  define i where "i = pixel_index W sx sy"
  from inb have sxW: "sx < W" and syH: "sy < H"
    and zx: "int px + kx = int sx" and zy: "int py + ky = int sy"
    by (auto simp add: in_bounds_def sx_def sy_def)
  have X: "(of_nat px + of_int kx :: rat) = of_nat sx"
    using zx by (metis of_int_add of_int_of_nat_eq)
  have Y: "(of_nat py + of_int ky :: rat) = of_nat sy"
    using zy by (metis of_int_add of_int_of_nat_eq)
  have I: "((of_nat sy * of_nat W + of_nat sx) * 4 :: rat) = of_nat i"
    by (simp add: i_def pixel_index_def algebra_simps)
  have I1: "(of_nat i + 1 :: rat) = of_nat (i + 1)" and I2: "(of_nat i + 2 :: rat) = of_nat (i + 2)"
    by simp_all
  have "i + 3 < length (h ! s)"
    unfolding i_def len by (rule pixel_in_range [OF sxW syH])
  then have L: "i < length (h ! s)" "i + 1 < length (h ! s)" "i + 2 < length (h ! s)"
    by simp_all
  have cond: "(0 :: rat) \<le> of_nat sx \<and> (of_nat sx :: rat) < of_nat W
              \<and> (0 :: rat) \<le> of_nat sy \<and> (of_nat sy :: rat) < of_nat H"
    using sxW syH by simp
  show ?thesis
    unfolding sample_pixel_def prod.case Let_def X Y I I1 I2
      load_of_nat [OF L(1)] load_of_nat [OF L(2)] load_of_nat [OF L(3)] js_add_Some
      sx_def [symmetric] sy_def [symmetric] i_def [symmetric]
    using cond by simp
qed

lemma fold_product:
  "fold (\<lambda>y. fold (f y) xs) ys = fold (\<lambda>(y, x). f y x) (List.product ys xs)"
proof (induction ys)
  case Nil
  show ?case by simp
next
  case (Cons y ys)
  have "(\<lambda>(y, x). f y x) \<circ> Pair y = f y"
    by (rule ext) simp
  then show ?case
    by (simp add: Cons.IH fold_map comp_def)
qed

lemma fold_sample_pixel:
  assumes len: "length (h ! s) = 4 * W * H"
  shows "fold (\<lambda>(ky, kx). sample_pixel h s W H (of_nat px) (of_nat py) ky kx) ks
           (Some (of_nat a), Some (of_nat b), Some (of_nat c), n)
         = (let ss = map (\<lambda>(ky, kx). (nat (int px + kx), nat (int py + ky)))
                       (filter (in_bounds W H px py) ks)
            in (Some (of_nat (a + sum_list (map (\<lambda>(sx, sy). unat (h ! s ! (pixel_index W sx sy + 0))) ss))),
                Some (of_nat (b + sum_list (map (\<lambda>(sx, sy). unat (h ! s ! (pixel_index W sx sy + 1))) ss))),
                Some (of_nat (c + sum_list (map (\<lambda>(sx, sy). unat (h ! s ! (pixel_index W sx sy + 2))) ss))),
                n + length ss))"
proof (induction ks arbitrary: a b c n)
  case Nil
  show ?case by simp
next
  case (Cons k ks)
  obtain ky kx where k: "k = (ky, kx)" by (cases k)
  show ?case
  proof (cases "in_bounds W H px py (ky, kx)")
    case True
    show ?thesis
      unfolding k fold_Cons comp_apply prod.case sample_pixel_in [OF len True] Cons.IH
      using True by (simp add: Let_def add.assoc)
  next
    case False
    show ?thesis
      unfolding k fold_Cons comp_apply prod.case sample_pixel_out [OF False] Cons.IH
      using False by (simp add: Let_def)
  qed
qed

lemma kernel_sums_eq:
  assumes len: "length (h ! s) = 4 * W * H"
  shows "kernel_sums h s W H radius (of_nat px) (of_nat py)
         = (Some (of_nat (channel_sum (h ! s) W H radius px py 0)),
            Some (of_nat (channel_sum (h ! s) W H radius px py 1)),
            Some (of_nat (channel_sum (h ! s) W H radius px py 2)),
            length (samples W H radius px py))"
proof -
  have z: "(Some 0, Some 0, Some 0, 0) = (Some (of_nat 0 :: rat), Some (of_nat 0 :: rat), Some (of_nat 0 :: rat), 0 :: nat)"
    by simp
  show ?thesis
    unfolding kernel_sums_def fold_product z fold_sample_pixel [OF len]
      kernel_offsets_def [symmetric]
    by (simp add: Let_def channel_sum_def samples_def)
qed

subsection \<open>One pixel of the region\<close>

lemma load_store_other: "s \<noteq> t \<Longrightarrow> load (store h t q v) s q' = load h s q'"
  by (simp add: load_def)

lemma store_of_nat: "store h t (of_nat i) v = h[t := (h ! t)[i := ToUint8Clamp v]]"
  by (simp add: store_def ta_set_of_nat)

lemma store4:
  assumes "t < length h"
  shows "store (store (store (store h t (of_nat i) v0) t (of_nat i + 1) v1) t (of_nat i + 2) v2)
           t (of_nat i + 3) v3
         = h[t := (h ! t)[i := ToUint8Clamp v0, i + 1 := ToUint8Clamp v1,
                         i + 2 := ToUint8Clamp v2, i + 3 := ToUint8Clamp v3]]"
proof -
  have e: "(of_nat i + 1 :: rat) = of_nat (i + 1)" "(of_nat i + 2 :: rat) = of_nat (i + 2)"
    "(of_nat i + 3 :: rat) = of_nat (i + 3)"
    by simp_all
  show ?thesis
    unfolding e store_of_nat using assms by simp
qed

lemma blur_pixel_eq:
  assumes st: "s \<noteq> t" and t: "t < length h"
    and ls: "length (h ! s) = 4 * W * H"
    and px: "px < W" and py: "py < H"
  shows "blur_pixel t s r W H (of_nat py) (of_nat px) h
         = h[t := pix_step (h ! s) W H r (px, py) (h ! t)]"
proof -
  define i where "i = pixel_index W px py"
  define n where "n = length (samples W H r px py)"
  have I: "((of_nat py * of_nat W + of_nat px) * 4 :: rat) = of_nat i"
    by (simp add: i_def pixel_index_def algebra_simps)
  have e: "(of_nat i + 1 :: rat) = of_nat (i + 1)" "(of_nat i + 2 :: rat) = of_nat (i + 2)"
    "(of_nat i + 3 :: rat) = of_nat (i + 3)"
    by simp_all
  have "i + 3 < length (h ! s)"
    unfolding i_def ls by (rule pixel_in_range [OF px py])
  then have L: "i < length (h ! s)" "i + 1 < length (h ! s)" "i + 2 < length (h ! s)"
    "i + 3 < length (h ! s)"
    by simp_all
  have ld: "load h s (of_nat i) = Some (h ! s ! i)"
    "load h s (of_nat i + 1) = Some (h ! s ! (i + 1))"
    "load h s (of_nat i + 2) = Some (h ! s ! (i + 2))"
    "load h s (of_nat i + 3) = Some (h ! s ! (i + 3))"
    unfolding e
    by (rule load_of_nat [OF L(1)], rule load_of_nat [OF L(2)], rule load_of_nat [OF L(3)],
        rule load_of_nat [OF L(4)])
  show ?thesis
  proof (cases "n > 0")
    case True
    then have ne: "samples W H r px py \<noteq> []"
      by (simp add: n_def)
    have "blur_pixel t s r W H (of_nat py) (of_nat px) h
        = store (store (store (store h t (of_nat i)
              (js_div (Some (of_nat (channel_sum (h ! s) W H r px py 0))) n))
            t (of_nat i + 1) (js_div (Some (of_nat (channel_sum (h ! s) W H r px py 1))) n))
            t (of_nat i + 2) (js_div (Some (of_nat (channel_sum (h ! s) W H r px py 2))) n))
            t (of_nat i + 3) (to_number (Some (h ! s ! (i + 3))))"
      unfolding blur_pixel_def kernel_sums_eq [OF ls] prod.case Let_def I n_def [symmetric]
      using True st by (simp add: load_store_other ld)
    also have "\<dots> = h[t := (h ! t)[i := pixel_out (h ! s) W H r px py 0,
                      i + 1 := pixel_out (h ! s) W H r px py 1,
                      i + 2 := pixel_out (h ! s) W H r px py 2,
                      i + 3 := pixel_out (h ! s) W H r px py 3]]"
      unfolding store4 [OF t] ToUint8Clamp_byte
      using ne by (simp add: pixel_out_def channel_mean_def js_div_def n_def i_def)
    finally show ?thesis
      by (simp add: pix_step_def upd4_def i_def)
  next
    case False
    then have em: "samples W H r px py = []"
      by (simp add: n_def)
    have "blur_pixel t s r W H (of_nat py) (of_nat px) h
        = store (store (store (store h t (of_nat i) (to_number (Some (h ! s ! i))))
            t (of_nat i + 1) (to_number (Some (h ! s ! (i + 1)))))
            t (of_nat i + 2) (to_number (Some (h ! s ! (i + 2)))))
            t (of_nat i + 3) (to_number (Some (h ! s ! (i + 3))))"
      unfolding blur_pixel_def kernel_sums_eq [OF ls] prod.case Let_def I n_def [symmetric]
      using False st by (simp add: load_store_other ld)
    also have "\<dots> = h[t := (h ! t)[i := pixel_out (h ! s) W H r px py 0,
                      i + 1 := pixel_out (h ! s) W H r px py 1,
                      i + 2 := pixel_out (h ! s) W H r px py 2,
                      i + 3 := pixel_out (h ! s) W H r px py 3]]"
      unfolding store4 [OF t] ToUint8Clamp_byte
      using em by (simp add: pixel_out_def i_def)
    finally show ?thesis
      by (simp add: pix_step_def upd4_def i_def)
  qed
qed

subsection \<open>The pixel loops as folds\<close>

lemma set_region_pixels: "(px, py) \<in> set (region_pixels x y w h) \<longleftrightarrow> in_region x y w h px py"
  by (auto simp add: region_pixels_def in_region_def image_iff)

lemma fold_concat_map: "fold f (concat (map g ys)) = fold (\<lambda>y. fold f (g y)) ys"
  by (induction ys) simp_all

lemma blur_row_eq:
  assumes st: "s \<noteq> t" and ls: "length (h ! s) = 4 * W * H" and py: "py < H" and xe: "xe \<le> W"
    and t: "t < length h"
  shows "blur_row t s r W H (of_nat py) (of_nat xe) (of_nat px) h
         = h[t := fold (pix_step (h ! s) W H r) (map (\<lambda>x. (x, py)) [px..<xe]) (h ! t)]"
  using ls t
proof (induction "xe - px" arbitrary: px h)
  case 0
  then have "\<not> (of_nat px :: rat) < of_nat xe" by simp
  then show ?case
    using 0 by (subst blur_row.simps) simp
next
  case (Suc n)
  then have lt: "px < xe" by simp
  then have pxW: "px < W" using xe by simp
  define h1 where "h1 = h[t := pix_step (h ! s) W H r (px, py) (h ! t)]"
  have bp: "blur_pixel t s r W H (of_nat py) (of_nat px) h = h1"
    unfolding h1_def by (rule blur_pixel_eq [OF st Suc.prems(2) Suc.prems(1) pxW py])
  have h1s: "h1 ! s = h ! s" and h1t: "h1 ! t = pix_step (h ! s) W H r (px, py) (h ! t)"
    and h1l: "t < length h1"
    using st Suc.prems(2) by (simp_all add: h1_def)
  have n: "n = xe - Suc px" using Suc.hyps(2) by simp
  have "length (h1 ! s) = 4 * W * H" using Suc.prems(1) h1s by simp
  from Suc.hyps(1) [OF n this h1l]
  have IH: "blur_row t s r W H (of_nat py) (of_nat xe) (of_nat (Suc px)) h1
      = h1[t := fold (pix_step (h1 ! s) W H r) (map (\<lambda>x. (x, py)) [Suc px..<xe]) (h1 ! t)]" .
  have e: "(of_nat px + 1 :: rat) = of_nat (Suc px)" by simp
  have c: "(of_nat px :: rat) < of_nat xe" using lt by simp
  have "blur_row t s r W H (of_nat py) (of_nat xe) (of_nat px) h
      = blur_row t s r W H (of_nat py) (of_nat xe) (of_nat (Suc px)) h1"
    by (subst blur_row.simps) (simp only: c if_True bp e)
  also note IH
  finally show ?case
    unfolding h1s h1t by (simp add: h1_def upt_conv_Cons [OF lt])
qed

lemma blur_rows_eq:
  assumes st: "s \<noteq> t" and ls: "length (h ! s) = 4 * W * H" and ye: "ye \<le> H" and xe: "xe \<le> W"
    and t: "t < length h"
  shows "blur_rows t s r W H (of_nat x0) (of_nat xe) (of_nat ye) (of_nat py) h
         = h[t := fold (\<lambda>y. fold (pix_step (h ! s) W H r) (map (\<lambda>x. (x, y)) [x0..<xe]))
                   [py..<ye] (h ! t)]"
  using ls t
proof (induction "ye - py" arbitrary: py h)
  case 0
  then have "\<not> (of_nat py :: rat) < of_nat ye" by simp
  then show ?case
    using 0 by (subst blur_rows.simps) simp
next
  case (Suc n)
  then have lt: "py < ye" by simp
  then have pyH: "py < H" using ye by simp
  define h1 where
    "h1 = h[t := fold (pix_step (h ! s) W H r) (map (\<lambda>x. (x, py)) [x0..<xe]) (h ! t)]"
  have br: "blur_row t s r W H (of_nat py) (of_nat xe) (of_nat x0) h = h1"
    unfolding h1_def by (rule blur_row_eq [OF st Suc.prems(1) pyH xe Suc.prems(2)])
  have h1s: "h1 ! s = h ! s"
    and h1t: "h1 ! t = fold (pix_step (h ! s) W H r) (map (\<lambda>x. (x, py)) [x0..<xe]) (h ! t)"
    and h1l: "t < length h1"
    using st Suc.prems(2) by (simp_all add: h1_def)
  have n: "n = ye - Suc py" using Suc.hyps(2) by simp
  have "length (h1 ! s) = 4 * W * H" using Suc.prems(1) h1s by simp
  from Suc.hyps(1) [OF n this h1l]
  have IH: "blur_rows t s r W H (of_nat x0) (of_nat xe) (of_nat ye) (of_nat (Suc py)) h1
      = h1[t := fold (\<lambda>y. fold (pix_step (h1 ! s) W H r) (map (\<lambda>x. (x, y)) [x0..<xe]))
                 [Suc py..<ye] (h1 ! t)]" .
  have e: "(of_nat py + 1 :: rat) = of_nat (Suc py)" by simp
  have c: "(of_nat py :: rat) < of_nat ye" using lt by simp
  have "blur_rows t s r W H (of_nat x0) (of_nat xe) (of_nat ye) (of_nat py) h
      = blur_rows t s r W H (of_nat x0) (of_nat xe) (of_nat ye) (of_nat (Suc py)) h1"
    by (subst blur_rows.simps) (simp only: c if_True br e)
  also note IH
  finally show ?case
    unfolding h1s h1t by (simp add: h1_def upt_conv_Cons [OF lt])
qed

lemma applyBlurEffect_eq:
  assumes st: "s \<noteq> t" and ls: "length (h ! s) = 4 * W * H" and t: "t < length h"
    and xe: "x0 + w \<le> W" and ye: "y0 + hh \<le> H"
  shows "applyBlurEffect t s (int_region x0 y0 w hh) r W H h
         = h[t := fold (pix_step (h ! s) W H r) (region_pixels x0 y0 w hh) (h ! t)]"
proof -
  have e: "(of_nat x0 + of_nat w :: rat) = of_nat (x0 + w)"
    "(of_nat y0 + of_nat hh :: rat) = of_nat (y0 + hh)"
    by simp_all
  have f: "fold (pix_step (h ! s) W H r) (region_pixels x0 y0 w hh)
         = fold (\<lambda>y. fold (pix_step (h ! s) W H r) (map (\<lambda>x. (x, y)) [x0..<x0 + w])) [y0..<y0 + hh]"
    by (simp add: region_pixels_def fold_concat_map)
  show ?thesis
    unfolding applyBlurEffect_def int_region_def Region.simps e f
    by (rule blur_rows_eq [OF st ls ye xe t])
qed

subsection \<open>The output buffer, sample by sample\<close>

lemma upd4_in:
  assumes "i + 3 < length a" and "c < 4"
  shows "upd4 a i f ! (i + c) = f c"
proof -
  from assms(2) consider "c = 0" | "c = 1" | "c = 2" | "c = 3"
    by arith
  then show ?thesis
    using assms(1) by cases (simp_all add: upd4_def)
qed

lemma upd4_out:
  assumes "j < i \<or> i + 3 < j"
  shows "upd4 a i f ! j = a ! j"
  using assms by (auto simp add: upd4_def)

lemma upd4_nth:
  assumes len: "4 * k + 3 < length a"
  shows "upd4 a (4 * k) f ! j = (if j div 4 = k then f (j mod 4) else a ! j)"
proof (cases "j div 4 = k")
  case True
  have "upd4 a (4 * k) f ! (4 * k + j mod 4) = f (j mod 4)"
    by (rule upd4_in [OF len]) simp
  moreover have "4 * k + j mod 4 = j"
    using True by arith
  ultimately show ?thesis
    using True by simp
next
  case False
  then have "j < 4 * k \<or> 4 * k + 3 < j"
    by arith
  from upd4_out [OF this] False show ?thesis
    by simp
qed

lemma length_pix_step [simp]: "length (pix_step src W H r p a) = length a"
  by (cases p) (simp add: pix_step_def upd4_def)

lemma pixel_coords:
  assumes "px < (W::nat)"
  shows "(py * W + px) mod W = px" and "(py * W + px) div W = py"
  using assms by simp_all

lemma pix_step_nth:
  assumes px: "px < W" and py: "py < H" and la: "length a = 4 * W * H" and j: "j < 4 * W * H"
  shows "pix_step src W H r (px, py) a ! j
         = (if (j div 4 mod W, j div 4 div W) = (px, py)
            then pixel_out src W H r px py (j mod 4) else a ! j)"
proof -
  have "pixel_index W px py + 3 < length a"
    unfolding la by (rule pixel_in_range [OF px py])
  then have len: "4 * (py * W + px) + 3 < length a"
    by (simp add: pixel_index_def)
  have iff: "(j div 4 = py * W + px) \<longleftrightarrow> (j div 4 mod W, j div 4 div W) = (px, py)"
  proof
    assume "j div 4 = py * W + px"
    then show "(j div 4 mod W, j div 4 div W) = (px, py)"
      using pixel_coords [OF px, of py] by simp
  next
    assume "(j div 4 mod W, j div 4 div W) = (px, py)"
    then have "j div 4 mod W = px" "j div 4 div W = py" by simp_all
    then show "j div 4 = py * W + px"
      using div_mult_mod_eq [of "j div 4" W] by simp
  qed
  have "pix_step src W H r (px, py) a ! j
      = (if j div 4 = py * W + px then pixel_out src W H r px py (j mod 4) else a ! j)"
    unfolding pix_step_def prod.case pixel_index_def
    using upd4_nth [OF len, of _ j] by simp
  then show ?thesis
    unfolding iff .
qed

lemma fold_pix_step_length [simp]: "length (fold (pix_step src W H r) ps a) = length a"
  by (induction ps arbitrary: a) simp_all

lemma fold_pix_step_nth:
  assumes "\<forall>p\<in>set ps. fst p < W \<and> snd p < H" and "length a = 4 * W * H" and "j < 4 * W * H"
  shows "fold (pix_step src W H r) ps a ! j
         = (if (j div 4 mod W, j div 4 div W) \<in> set ps
            then pixel_out src W H r (j div 4 mod W) (j div 4 div W) (j mod 4) else a ! j)"
  using assms
proof (induction ps arbitrary: a)
  case Nil
  show ?case by simp
next
  case (Cons p ps)
  obtain px py where p: "p = (px, py)" by (cases p)
  from Cons.prems(1) have px: "px < W" and py: "py < H" and rest: "\<forall>p\<in>set ps. fst p < W \<and> snd p < H"
    by (simp_all add: p)
  have l1: "length (pix_step src W H r (px, py) a) = 4 * W * H"
    using Cons.prems(2) by simp
  show ?case
    unfolding p fold_Cons comp_apply Cons.IH [OF rest l1 Cons.prems(3)]
      pix_step_nth [OF px py Cons.prems(2) Cons.prems(3)]
    by auto
qed

lemma applyBlurEffect_nth:
  assumes st: "s \<noteq> t" and t: "t < length h"
    and ls: "length (h ! s) = 4 * W * H" and lt: "length (h ! t) = 4 * W * H"
    and xe: "x0 + w \<le> W" and ye: "y0 + hh \<le> H"
    and px: "px < W" and py: "py < H" and c: "c < 4"
  shows "applyBlurEffect t s (int_region x0 y0 w hh) r W H h ! t ! (pixel_index W px py + c)
         = (if in_region x0 y0 w hh px py then pixel_out (h ! s) W H r px py c
            else h ! t ! (pixel_index W px py + c))"
proof -
  define j where "j = pixel_index W px py + c"
  define m where "m = py * W + px"
  have "j = 4 * m + c"
    by (simp add: j_def pixel_index_def m_def)
  with c have "j div 4 = m" and jm: "j mod 4 = c"
    by arith+
  then have jd: "j div 4 = py * W + px"
    by (simp add: m_def)
  have co: "j div 4 mod W = px" "j div 4 div W = py"
    unfolding jd using pixel_coords [OF px, of py] by simp_all
  have j: "j < 4 * W * H"
    using pixel_in_range [OF px py] c by (simp add: j_def)
  have inimg: "\<forall>p\<in>set (region_pixels x0 y0 w hh). fst p < W \<and> snd p < H"
    using xe ye by (auto simp add: region_pixels_def)
  show ?thesis
    unfolding applyBlurEffect_eq [OF st ls t xe ye] j_def [symmetric]
    using t fold_pix_step_nth [OF inimg lt j, of "h ! s" r]
    by (simp add: co jm set_region_pixels)
qed

lemma applyBlurEffect_length:
  assumes st: "s \<noteq> t" and t: "t < length h"
    and ls: "length (h ! s) = 4 * W * H"
    and xe: "x0 + w \<le> W" and ye: "y0 + hh \<le> H"
  shows "length (applyBlurEffect t s (int_region x0 y0 w hh) r W H h ! t) = length (h ! t)"
  unfolding applyBlurEffect_eq [OF st ls t xe ye] using t by simp

lemma applyBlurEffect_spec:
  assumes st: "s \<noteq> t" and t: "t < length h"
    and ls: "length (h ! s) = 4 * W * H" and cp: "h ! t = h ! s"
    and xe: "x0 + w \<le> W" and ye: "y0 + hh \<le> H"
  shows "applyBlurEffect t s (int_region x0 y0 w hh) r W H h ! t
         = blur_spec (h ! s) W H r x0 y0 w hh"
proof (rule nth_equalityI)
  have lt: "length (h ! t) = 4 * W * H" using ls cp by simp
  show "length (applyBlurEffect t s (int_region x0 y0 w hh) r W H h ! t)
      = length (blur_spec (h ! s) W H r x0 y0 w hh)"
    using applyBlurEffect_length [OF st t ls xe ye, of r] lt by (simp add: blur_spec_def)
  fix j
  assume "j < length (applyBlurEffect t s (int_region x0 y0 w hh) r W H h ! t)"
  then have j: "j < 4 * W * H"
    using applyBlurEffect_length [OF st t ls xe ye, of r] lt by simp
  have inimg: "\<forall>p\<in>set (region_pixels x0 y0 w hh). fst p < W \<and> snd p < H"
    using xe ye by (auto simp add: region_pixels_def)
  show "applyBlurEffect t s (int_region x0 y0 w hh) r W H h ! t ! j
      = blur_spec (h ! s) W H r x0 y0 w hh ! j"
    unfolding applyBlurEffect_eq [OF st ls t xe ye]
    using t j fold_pix_step_nth [OF inimg lt j, of "h ! s" r]
    by (simp add: blur_spec_def set_region_pixels cp)
qed

lemma region_invalid_int:
  "region_invalid (int_region x y w h) W H \<longleftrightarrow> \<not> (0 < w \<and> 0 < h \<and> x + w \<le> W \<and> y + h \<le> H)"
proof -
  have e: "(of_nat x + of_nat w :: rat) = of_nat (x + w)" "(of_nat y + of_nat h :: rat) = of_nat (y + h)"
    by simp_all
  show ?thesis
    unfolding region_invalid_iff int_region_def Region.simps e
    by (simp add: not_le not_less) linarith
qed

lemma blurred_copy:
  assumes s: "s < length h" and ls: "length (h ! s) = 4 * W * H"
    and xe: "x0 + w \<le> W" and ye: "y0 + hh \<le> H"
  shows "applyBlurEffect (length h) s (int_region x0 y0 w hh) r W H (h @ [h ! s]) ! length h
         = blur_spec (h ! s) W H r x0 y0 w hh"
proof -
  have a: "s \<noteq> length h" using s by simp
  have b: "length h < length (h @ [h ! s])" by simp
  have c: "(h @ [h ! s]) ! s = h ! s" using s by (simp add: nth_append)
  have d: "(h @ [h ! s]) ! length h = h ! s" by simp
  have ls': "length ((h @ [h ! s]) ! s) = 4 * W * H" using ls c by simp
  have cp: "(h @ [h ! s]) ! length h = (h @ [h ! s]) ! s" using c d by simp
  show ?thesis
    using applyBlurEffect_spec [OF a b ls' cp xe ye, of r] c by simp
qed


lemma blur_spec_length [simp]: "length (blur_spec src W H r x y w h) = 4 * W * H"
  by (simp add: blur_spec_def)

lemma blur_spec_nth:
  assumes px: "px < W" and py: "py < H" and c: "c < 4"
  shows "blur_spec src W H r x y w h ! (pixel_index W px py + c)
         = (if in_region x y w h px py then pixel_out src W H r px py c
            else src ! (pixel_index W px py + c))"
proof -
  define j where "j = pixel_index W px py + c"
  define m where "m = py * W + px"
  have "j = 4 * m + c"
    by (simp add: j_def pixel_index_def m_def)
  with c have "j div 4 = m" and jm: "j mod 4 = c"
    by arith+
  then have jd: "j div 4 = py * W + px"
    by (simp add: m_def)
  have co: "j div 4 mod W = px" "j div 4 div W = py"
    unfolding jd using pixel_coords [OF px, of py] by simp_all
  have j: "j < 4 * W * H"
    using pixel_in_range [OF px py] c by (simp add: j_def)
  show ?thesis
    unfolding j_def [symmetric] using j by (simp add: blur_spec_def co jm)
qed

lemma removeWatermark_int:
  assumes s: "data img < length (heap st)"
    and wf: "length (heap st ! data img) = 4 * width img * height img"
    and v: "0 < w" "0 < hh" "x0 + w \<le> width img" "y0 + hh \<le> height img"
  shows "removeWatermark img (int_region x0 y0 w hh) st
         = (Inr \<lparr>data = length (heap st), width = width img, height = height img\<rparr>,
            st\<lparr>heap := applyBlurEffect (length (heap st)) (data img) (int_region x0 y0 w hh)
                     (calculateBlurRadius (of_nat w) (of_nat hh))
                     (width img) (height img) (heap st @ [heap st ! data img])\<rparr>)"
proof -
  have "\<not> region_invalid (int_region x0 y0 w hh) (width img) (height img)"
    using v by (simp add: region_invalid_int)
  from removeWatermark_valid [OF this] show ?thesis
    by (simp add: int_region_def)
qed

lemma blurWatermark_int:
  assumes s: "data img < length (heap st)"
    and wf: "length (heap st ! data img) = 4 * width img * height img"
    and v: "0 < w" "0 < hh" "x0 + w \<le> width img" "y0 + hh \<le> height img"
  shows "blurWatermark img (int_region x0 y0 w hh) st
         = (\<lparr>data = length (heap st), width = width img, height = height img\<rparr>,
            st\<lparr>heap := applyBlurEffect (length (heap st)) (data img) (int_region x0 y0 w hh)
                     (calculateBlurRadius (of_nat w) (of_nat hh))
                     (width img) (height img) (heap st @ [heap st ! data img])\<rparr>)"
proof -
  have "\<not> region_invalid (int_region x0 y0 w hh) (width img) (height img)"
    using v by (simp add: region_invalid_int)
  from blurWatermark_valid [OF this] show ?thesis
    by (simp add: int_region_def)
qed

lemma removeWatermark_spec:
  assumes s: "data img < length (heap st)"
    and wf: "length (heap st ! data img) = 4 * width img * height img"
    and v: "0 < w" "0 < hh" "x0 + w \<le> width img" "y0 + hh \<le> height img"
  shows "fst (removeWatermark img (int_region x0 y0 w hh) st)
           = Inr \<lparr>data = length (heap st), width = width img, height = height img\<rparr>"
    and "heap (snd (removeWatermark img (int_region x0 y0 w hh) st)) ! length (heap st)
           = blur_spec (heap st ! data img) (width img) (height img)
               (calculateBlurRadius (of_nat w) (of_nat hh)) x0 y0 w hh"
  unfolding removeWatermark_int [OF assms]
  by (simp_all add: blurred_copy [OF s wf v(3) v(4)])

lemma blurWatermark_spec:
  assumes s: "data img < length (heap st)"
    and wf: "length (heap st ! data img) = 4 * width img * height img"
    and v: "0 < w" "0 < hh" "x0 + w \<le> width img" "y0 + hh \<le> height img"
  shows "fst (blurWatermark img (int_region x0 y0 w hh) st)
           = \<lparr>data = length (heap st), width = width img, height = height img\<rparr>"
    and "heap (snd (blurWatermark img (int_region x0 y0 w hh) st)) ! length (heap st)
           = blur_spec (heap st ! data img) (width img) (height img)
               (calculateBlurRadius (of_nat w) (of_nat hh)) x0 y0 w hh"
  unfolding blurWatermark_int [OF assms]
  by (simp_all add: blurred_copy [OF s wf v(3) v(4)])

subsection \<open>Uniform buffers\<close>

lemma uniform_length [simp]: "length (uniform n r g b a) = 4 * n"
  by (induction n) (simp_all add: uniform_def)

lemma uniform_Suc: "uniform (Suc n) r g b a = [r, g, b, a] @ uniform n r g b a"
  by (simp add: uniform_def)

lemma uniform_nth:
  assumes "k < n" and "c < 4"
  shows "uniform n r g b a ! (4 * k + c) = [r, g, b, a] ! c"
  using assms(1)
proof (induction n arbitrary: k)
  case 0
  then show ?case by simp
next
  case (Suc n)
  show ?case
  proof (cases k)
    case 0
    from assms(2) consider "c = 0" | "c = 1" | "c = 2" | "c = 3"
      by arith
    then show ?thesis
      using 0 by cases (simp_all add: uniform_Suc)
  next
    case (Suc k')
    with Suc.prems have "k' < n" by simp
    from Suc.IH [OF this] have IH: "uniform n r g b a ! (4 * k' + c) = [r, g, b, a] ! c" .
    have i: "\<not> 4 * k + c < length [r, g, b, a]"
      and j: "4 * k + c - length [r, g, b, a] = 4 * k' + c"
      using Suc by simp_all
    show ?thesis
      unfolding uniform_Suc nth_append by (simp only: i j if_False IH)
  qed
qed

lemma uniform_pixel:
  assumes "px < W" and "py < H" and "c < 4"
  shows "uniform (W * H) r g b a ! (pixel_index W px py + c) = [r, g, b, a] ! c"
proof -
  have "py * W + px < Suc py * W" using assms(1) by simp
  also have "\<dots> \<le> H * W" using assms(2) by (intro mult_le_mono1) simp
  finally have "py * W + px < W * H" by (simp add: mult.commute)
  from uniform_nth [OF this assms(3)] show ?thesis
    by (simp add: pixel_index_def)
qed

lemma samples_in_image:
  assumes "p \<in> set (samples W H radius px py)"
  shows "fst p < W \<and> snd p < H"
  using assms by (auto simp add: samples_def in_bounds_def)

lemma samples_nonempty:
  assumes "0 \<le> radius" and "px < W" and "py < H"
  shows "samples W H radius px py \<noteq> []"
proof -
  have "(0, 0) \<in> set (kernel_offsets radius)"
    using assms(1) by (simp add: kernel_offsets_def)
  moreover have "in_bounds W H px py (0, 0)"
    using assms(2,3) by (simp add: in_bounds_def)
  ultimately have "filter (in_bounds W H px py) (kernel_offsets radius) \<noteq> []"
    by (metis filter_empty_conv)
  then show ?thesis
    by (simp add: samples_def)
qed

lemma channel_sum_uniform:
  assumes "c < 4"
  shows "channel_sum (uniform (W * H) r g b a) W H radius px py c
         = length (samples W H radius px py) * unat ([r, g, b, a] ! c)"
proof -
  have eq: "map (\<lambda>(sx, sy). unat (uniform (W * H) r g b a ! (pixel_index W sx sy + c)))
          (samples W H radius px py)
      = map (\<lambda>p. unat ([r, g, b, a] ! c)) (samples W H radius px py)"
  proof (rule map_cong [OF refl])
    fix p
    assume "p \<in> set (samples W H radius px py)"
    from samples_in_image [OF this]
    show "(case p of (sx, sy) \<Rightarrow> unat (uniform (W * H) r g b a ! (pixel_index W sx sy + c)))
        = unat ([r, g, b, a] ! c)"
      using assms by (cases p) (simp add: uniform_pixel)
  qed
  show ?thesis
    unfolding channel_sum_def eq by (simp add: sum_list_triv)
qed

lemma pixel_out_uniform:
  assumes px: "px < W" and py: "py < H" and c: "c < 4"
  shows "pixel_out (uniform (W * H) r g b a) W H radius px py c = [r, g, b, a] ! c"
proof (cases "samples W H radius px py = [] \<or> c = 3")
  case True
  then show ?thesis
    using uniform_pixel [OF px py c] by (simp add: pixel_out_def)
next
  case False
  then have n: "length (samples W H radius px py) \<noteq> 0" by simp
  have "channel_mean (uniform (W * H) r g b a) W H radius px py c
      = of_nat (unat ([r, g, b, a] ! c))"
    unfolding channel_mean_def channel_sum_uniform [OF c] using n
    by (simp del: of_nat_unat)
  then have "ToUint8Clamp (Some (channel_mean (uniform (W * H) r g b a) W H radius px py c))
      = [r, g, b, a] ! c"
    using ToUint8Clamp_byte [of "[r, g, b, a] ! c"] by (simp add: to_number_def del: of_nat_unat)
  with False show ?thesis
    by (simp add: pixel_out_def)
qed

lemma blur_spec_uniform:
  "blur_spec (uniform (W * H) r g b a) W H radius x y w h = uniform (W * H) r g b a"
proof (rule nth_equalityI)
  show "length (blur_spec (uniform (W * H) r g b a) W H radius x y w h)
      = length (uniform (W * H) r g b a)"
    by simp
  fix j
  assume "j < length (blur_spec (uniform (W * H) r g b a) W H radius x y w h)"
  then have j: "j < 4 * (W * H)" by simp
  then have k: "j div 4 < W * H" by simp
  then have W: "0 < W" by (cases W) simp_all
  have px: "j div 4 mod W < W" using W by simp
  have py: "j div 4 div W < H" using k by (simp add: less_mult_imp_div_less mult.commute)
  have c: "j mod 4 < 4" by simp
  have e: "pixel_index W (j div 4 mod W) (j div 4 div W) + j mod 4 = j"
    by (simp add: pixel_index_def)
  have u: "uniform (W * H) r g b a ! j = [r, g, b, a] ! (j mod 4)"
    using uniform_pixel [OF px py c, of r g b a] unfolding e .
  have "blur_spec (uniform (W * H) r g b a) W H radius x y w h ! j = [r, g, b, a] ! (j mod 4)"
    using j by (simp add: blur_spec_def pixel_out_uniform [OF px py c] u mult.assoc)
  with u show "blur_spec (uniform (W * H) r g b a) W H radius x y w h ! j
      = uniform (W * H) r g b a ! j"
    by simp
qed

subsection \<open>Independence of the rest of the heap\<close>

text \<open>
  A blur reads the heap only at the source address and writes it only at the target
  address: with the two apart, its effect is the one it has on the heap that holds just
  the source array (at 0) and the target array (at 1).
\<close>

lemma sample_pixel_reloc:
  "sample_pixel h s W H x y ky = sample_pixel [h ! s, a] 0 W H x y ky"
proof (rule ext, rule ext)
  fix kx acc
  show "sample_pixel h s W H x y ky kx acc = sample_pixel [h ! s, a] 0 W H x y ky kx acc"
    by (cases acc) (simp add: sample_pixel_def load_def Let_def)
qed

lemma kernel_sums_reloc:
  "kernel_sums h s W H r x y = kernel_sums [h ! s, a] 0 W H r x y"
  unfolding kernel_sums_def sample_pixel_reloc [of h s W H x y _ a] by (rule refl)

lemma store4_reloc:
  assumes "t < length h"
  shows "store (store (store (store h t q0 v0) t q1 v1) t q2 v2) t q3 v3
         = h[t := store (store (store (store [b, h ! t] 1 q0 v0) 1 q1 v1) 1 q2 v2) 1 q3 v3 ! 1]"
  using assms by (simp add: store_def)

lemma load_store4_other:
  assumes "s \<noteq> t"
  shows "load (store (store (store h t q0 v0) t q1 v1) t q2 v2) s q = load h s q"
    and "load (store (store h t q0 v0) t q1 v1) s q = load h s q"
    and "load (store h t q0 v0) s q = load h s q"
  using assms by (simp_all add: load_store_other)

lemma load_cell0: "load [a, b] 0 q = ta_get a q"
  by (simp add: load_def)

lemma blur_pixel_reloc:
  assumes st: "s \<noteq> t" and t: "t < length h"
  shows "blur_pixel t s r W H y x h = h[t := blur_pixel 1 0 r W H y x [h ! s, h ! t] ! 1]"
proof -
  obtain rs gs bs n where k: "kernel_sums h s W H r x y = (rs, gs, bs, n)"
    by (cases "kernel_sums h s W H r x y") auto
  have k': "kernel_sums [h ! s, h ! t] 0 W H r x y = (rs, gs, bs, n)"
    using kernel_sums_reloc [of h s W H r x y "h ! t"] k by simp
  have ne: "(0::nat) \<noteq> 1" by simp
  have ld: "load h s q = ta_get (h ! s) q" for q
    by (simp add: load_def)
  show ?thesis
    unfolding blur_pixel_def k k' prod.case Let_def
      load_store4_other [OF st] load_store4_other [OF ne] load_cell0 ld
    by (simp add: store4_reloc [OF t] del: One_nat_def)
qed

lemma blur_row_reloc:
  assumes "s \<noteq> t" and "t < length h"
  shows "blur_row t s r W H y xend x h = h[t := blur_row 1 0 r W H y xend x [h ! s, h ! t] ! 1]"
  using assms
proof (induction t s r W H y xend x h rule: blur_row.induct)
  case (1 t s r W H y xend x h)
  show ?case
  proof (cases "x < xend")
    case True
    define a1 where "a1 = blur_pixel 1 0 r W H y x [h ! s, h ! t] ! 1"
    have bp: "blur_pixel t s r W H y x h = h[t := a1]"
      unfolding a1_def by (rule blur_pixel_reloc [OF "1.prems"])
    have bp2: "blur_pixel 1 0 r W H y x [h ! s, h ! t] = [h ! s, a1]"
      using blur_pixel_reloc [of 0 1 "[h ! s, h ! t]" r W H y x] by (simp add: a1_def)
    have l: "t < length (h[t := a1])" using "1.prems"(2) by simp
    have IH: "blur_row t s r W H y xend (x + 1) (h[t := a1])
        = (h[t := a1])[t := blur_row 1 0 r W H y xend (x + 1) [h[t := a1] ! s, h[t := a1] ! t] ! 1]"
      using "1.IH" [OF True "1.prems"(1)] l unfolding bp by simp
    have lhs: "blur_row t s r W H y xend x h = blur_row t s r W H y xend (x + 1) (h[t := a1])"
      by (subst blur_row.simps) (simp only: True if_True bp)
    have rhs: "blur_row 1 0 r W H y xend x [h ! s, h ! t]
        = blur_row 1 0 r W H y xend (x + 1) [h ! s, a1]"
      by (subst blur_row.simps) (simp only: True if_True bp2)
    show ?thesis
      unfolding lhs rhs IH using "1.prems" by simp
  next
    case False
    have "blur_row t s r W H y xend x h = h"
      by (subst blur_row.simps) (simp only: False if_False)
    moreover have "blur_row 1 0 r W H y xend x [h ! s, h ! t] = [h ! s, h ! t]"
      by (subst blur_row.simps) (simp only: False if_False)
    ultimately show ?thesis by simp
  qed
qed

lemma blur_rows_reloc:
  assumes "s \<noteq> t" and "t < length h"
  shows "blur_rows t s r W H xs xe yend y h
         = h[t := blur_rows 1 0 r W H xs xe yend y [h ! s, h ! t] ! 1]"
  using assms
proof (induction t s r W H xs xe yend y h rule: blur_rows.induct)
  case (1 t s r W H xs xe yend y h)
  show ?case
  proof (cases "y < yend")
    case True
    define a1 where "a1 = blur_row 1 0 r W H y xe xs [h ! s, h ! t] ! 1"
    have br: "blur_row t s r W H y xe xs h = h[t := a1]"
      unfolding a1_def by (rule blur_row_reloc [OF "1.prems"])
    have br2: "blur_row 1 0 r W H y xe xs [h ! s, h ! t] = [h ! s, a1]"
      using blur_row_reloc [of 0 1 "[h ! s, h ! t]" r W H y xe xs] by (simp add: a1_def)
    have l: "t < length (h[t := a1])" using "1.prems"(2) by simp
    have IH: "blur_rows t s r W H xs xe yend (y + 1) (h[t := a1])
        = (h[t := a1])[t := blur_rows 1 0 r W H xs xe yend (y + 1)
                               [h[t := a1] ! s, h[t := a1] ! t] ! 1]"
      using "1.IH" [OF True "1.prems"(1)] l unfolding br by simp
    have lhs: "blur_rows t s r W H xs xe yend y h
        = blur_rows t s r W H xs xe yend (y + 1) (h[t := a1])"
      by (subst blur_rows.simps) (simp only: True if_True br)
    have rhs: "blur_rows 1 0 r W H xs xe yend y [h ! s, h ! t]
        = blur_rows 1 0 r W H xs xe yend (y + 1) [h ! s, a1]"
      by (subst blur_rows.simps) (simp only: True if_True br2)
    show ?thesis
      unfolding lhs rhs IH using "1.prems" by simp
  next
    case False
    have "blur_rows t s r W H xs xe yend y h = h"
      by (subst blur_rows.simps) (simp only: False if_False)
    moreover have "blur_rows 1 0 r W H xs xe yend y [h ! s, h ! t] = [h ! s, h ! t]"
      by (subst blur_rows.simps) (simp only: False if_False)
    ultimately show ?thesis by simp
  qed
qed

lemma applyBlurEffect_reloc:
  assumes "s \<noteq> t" and "t < length h"
  shows "applyBlurEffect t s region r W H h
         = h[t := applyBlurEffect 1 0 region r W H [h ! s, h ! t] ! 1]"
  unfolding applyBlurEffect_def by (rule blur_rows_reloc [OF assms])

subsection \<open>One step of the frame loop\<close>

lemma blurWatermark_effect:
  assumes s: "data img < length (heap st)"
  shows "\<exists>out st'. blurWatermark img region st = (out, st')
           \<and> frame_content st' out = blurred_frame region (frame_content st img)
           \<and> data out < length (heap st')
           \<and> (\<exists>zs. heap st' = heap st @ zs)
           \<and> seeks st' = seeks st
           \<and> filter is_frame_error (console st') = filter is_frame_error (console st)"
proof (cases "region_invalid region (width img) (height img)")
  case True
  have iso: "blurred_frame region (frame_content st img) = frame_content st img"
    using True by (simp add: blurred_frame_def frame_content_def blurWatermark_invalid)
  show ?thesis
    unfolding blurWatermark_invalid [OF True] iso
    using s by (simp add: frame_content_def)
next
  case False
  define src where "src = heap st ! data img"
  define r where "r = calculateBlurRadius (regionWidth region) (regionHeight region)"
  define X where "X = applyBlurEffect 1 0 region r (width img) (height img) [src, src] ! 1"
  have ne: "data img \<noteq> length (heap st)" using s by simp
  have l: "length (heap st) < length (heap st @ [src])" by simp
  have cs: "(heap st @ [src]) ! data img = src" using s by (simp add: nth_append src_def)
  have ct: "(heap st @ [src]) ! length (heap st) = src" by simp
  have hp: "applyBlurEffect (length (heap st)) (data img) region r (width img) (height img)
              (heap st @ [src]) = heap st @ [X]"
    unfolding applyBlurEffect_reloc [OF ne l] cs ct X_def by simp
  have bw: "blurWatermark img region st
      = (\<lparr>data = length (heap st), width = width img, height = height img\<rparr>,
         st\<lparr>heap := heap st @ [X]\<rparr>)"
    unfolding blurWatermark_valid [OF False] src_def [symmetric] r_def [symmetric] hp ..
  have iso: "blurred_frame region (frame_content st img) = (X, width img, height img)"
    using False
    by (simp add: blurred_frame_def frame_content_def blurWatermark_valid X_def src_def r_def)
  show ?thesis
    unfolding bw iso by (simp add: frame_content_def)
qed

lemma frame_step_pending:
  assumes "frame_at v (js_index_div i rate) = Pending"
  shows "frame_step v region rate i fs st = (None, st\<lparr>seeks := seeks st @ [js_index_div i rate]\<rparr>)"
  using assms by (simp add: frame_step_def Let_def)

lemma frame_step_rejected:
  assumes "frame_at v (js_index_div i rate) = Rejected e"
  shows "frame_step v region rate i fs st
         = (Some fs, st\<lparr>seeks := seeks st @ [js_index_div i rate],
                        console := console st @ [FrameErrorLogged (js_index_div i rate) e]\<rparr>)"
  using assms by (simp add: frame_step_def Let_def)

lemma frame_step_resolved:
  assumes "frame_at v (js_index_div i rate) = Resolved fr"
  shows "\<exists>pf st'. frame_step v region rate i fs st = (Some (fs @ [pf]), st')
           \<and> frame_content st' pf = blurred_frame region fr
           \<and> data pf < length (heap st')
           \<and> (\<exists>zs. heap st' = heap st @ zs)
           \<and> seeks st' = seeks st @ [js_index_div i rate]
           \<and> filter is_frame_error (console st') = filter is_frame_error (console st)"
proof -
  obtain px w h where fr: "fr = (px, w, h)" by (cases fr)
  define st1 where "st1 = st\<lparr>seeks := seeks st @ [js_index_div i rate], heap := heap st @ [px]\<rparr>"
  define img where "img = \<lparr>data = length (heap st), width = w, height = h\<rparr>"
  have s: "data img < length (heap st1)" by (simp add: img_def st1_def)
  from blurWatermark_effect [OF s, of region]
  obtain out st' where bw: "blurWatermark img region st1 = (out, st')"
    and c: "frame_content st' out = blurred_frame region (frame_content st1 img)"
    and d: "data out < length (heap st')"
    and e: "\<exists>zs. heap st' = heap st1 @ zs"
    and f: "seeks st' = seeks st1"
    and g: "filter is_frame_error (console st') = filter is_frame_error (console st1)"
    by blast
  have fc: "frame_content st1 img = fr"
    by (simp add: frame_content_def img_def st1_def fr)
  have step: "frame_step v region rate i fs st = (Some (fs @ [out]), st')"
    using assms bw by (simp add: frame_step_def Let_def alloc_def fr st1_def img_def)
  from e have e': "\<exists>zs. heap st' = heap st @ zs"
    by (auto simp add: st1_def)
  show ?thesis
    using step c d e' f g unfolding fc by (simp add: st1_def)
qed

subsection \<open>The frame loop\<close>

lemma frame_content_extend:
  assumes "heap st' = heap st @ zs" and "\<forall>f\<in>set fs. data f < length (heap st)"
  shows "map (frame_content st') fs = map (frame_content st) fs"
  using assms by (simp add: frame_content_def nth_append)

lemma frame_loop_run:
  assumes "\<forall>j. i \<le> j \<and> j < n \<longrightarrow> frame_at v (js_index_div j rate) \<noteq> Pending"
    and "\<forall>f\<in>set fs. data f < length (heap st)"
  shows "\<exists>fs' st'. frame_loop v region rate (of_nat n) i fs st = (Some fs', st')
           \<and> seeks st' = seeks st @ map (\<lambda>j. js_index_div j rate) [i..<n]
           \<and> (\<forall>f\<in>set fs'. data f < length (heap st'))
           \<and> map (frame_content st') fs'
               = map (frame_content st) fs @ map (blurred_frame region) (extracted v rate [i..<n])
           \<and> filter is_frame_error (console st')
               = filter is_frame_error (console st) @ failures v rate [i..<n]
           \<and> (\<exists>zs. heap st' = heap st @ zs)"
  using assms
proof (induction "n - i" arbitrary: i fs st)
  case 0
  then have "\<not> (of_nat i :: rat) < of_nat n" by simp
  then have "frame_loop v region rate (of_nat n) i fs st = (Some fs, st)"
    by (subst frame_loop.simps) (simp only: if_False)
  with 0 show ?case by simp
next
  case (Suc k)
  then have lt: "i < n" by simp
  then have c: "(of_nat i :: rat) < of_nat n" by simp
  have k: "k = n - Suc i" using Suc.hyps(2) by simp
  have settle': "\<forall>j. Suc i \<le> j \<and> j < n \<longrightarrow> frame_at v (js_index_div j rate) \<noteq> Pending"
    using Suc.prems(1) by simp
  have upt: "[i..<n] = i # [Suc i..<n]"
    using lt by (rule upt_conv_Cons)
  from Suc.prems(1) lt have np: "frame_at v (js_index_div i rate) \<noteq> Pending"
    by simp
  show ?case
  proof (cases "frame_at v (js_index_div i rate)")
    case Pending
    with np show ?thesis by simp
  next
    case (Rejected e)
    define st1 where "st1 = st\<lparr>seeks := seeks st @ [js_index_div i rate],
        console := console st @ [FrameErrorLogged (js_index_div i rate) e]\<rparr>"
    have step: "frame_step v region rate i fs st = (Some fs, st1)"
      unfolding st1_def by (rule frame_step_rejected [OF Rejected])
    have loop: "frame_loop v region rate (of_nat n) i fs st
        = frame_loop v region rate (of_nat n) (Suc i) fs st1"
      by (subst frame_loop.simps) (simp add: lt step)
    have addr: "\<forall>f\<in>set fs. data f < length (heap st1)"
      using Suc.prems(2) by (simp add: st1_def)
    from Suc.hyps(1) [OF k settle' addr]
    obtain fs' st' where r: "frame_loop v region rate (of_nat n) (Suc i) fs st1 = (Some fs', st')"
      and a1: "seeks st' = seeks st1 @ map (\<lambda>j. js_index_div j rate) [Suc i..<n]"
      and a2: "\<forall>f\<in>set fs'. data f < length (heap st')"
      and a3: "map (frame_content st') fs'
          = map (frame_content st1) fs @ map (blurred_frame region) (extracted v rate [Suc i..<n])"
      and a4: "filter is_frame_error (console st')
          = filter is_frame_error (console st1) @ failures v rate [Suc i..<n]"
      and a5: "\<exists>zs. heap st' = heap st1 @ zs"
      by blast
    have fc: "map (frame_content st1) fs = map (frame_content st) fs"
      by (simp add: frame_content_def st1_def)
    show ?thesis
      unfolding loop r upt
      using a1 a2 a3 a4 a5 by (simp add: Rejected st1_def fc [unfolded st1_def])
  next
    case (Resolved fr)
    from frame_step_resolved [OF Resolved, of region fs st]
    obtain pf st1 where step: "frame_step v region rate i fs st = (Some (fs @ [pf]), st1)"
      and b1: "frame_content st1 pf = blurred_frame region fr"
      and b2: "data pf < length (heap st1)"
      and b3: "\<exists>zs. heap st1 = heap st @ zs"
      and b4: "seeks st1 = seeks st @ [js_index_div i rate]"
      and b5: "filter is_frame_error (console st1) = filter is_frame_error (console st)"
      by blast
    from b3 obtain zs where zs: "heap st1 = heap st @ zs" by blast
    have loop: "frame_loop v region rate (of_nat n) i fs st
        = frame_loop v region rate (of_nat n) (Suc i) (fs @ [pf]) st1"
      by (subst frame_loop.simps) (simp add: lt step)
    have addr: "\<forall>f\<in>set (fs @ [pf]). data f < length (heap st1)"
      using Suc.prems(2) b2 by (auto simp add: zs)
    from Suc.hyps(1) [OF k settle' addr]
    obtain fs' st' where r: "frame_loop v region rate (of_nat n) (Suc i) (fs @ [pf]) st1 = (Some fs', st')"
      and a1: "seeks st' = seeks st1 @ map (\<lambda>j. js_index_div j rate) [Suc i..<n]"
      and a2: "\<forall>f\<in>set fs'. data f < length (heap st')"
      and a3: "map (frame_content st') fs'
          = map (frame_content st1) (fs @ [pf])
            @ map (blurred_frame region) (extracted v rate [Suc i..<n])"
      and a4: "filter is_frame_error (console st')
          = filter is_frame_error (console st1) @ failures v rate [Suc i..<n]"
      and a5: "\<exists>zs. heap st' = heap st1 @ zs"
      by blast
    have fc: "map (frame_content st1) fs = map (frame_content st) fs"
      by (rule frame_content_extend [OF zs Suc.prems(2)])
    from a5 zs have a5': "\<exists>zs. heap st' = heap st @ zs"
      by auto
    show ?thesis
      unfolding loop r upt
      using a1 a2 a3 a4 a5' by (simp add: Resolved b1 b4 b5 fc)
  qed
qed

subsection \<open>The sample count\<close>

lemma js_mul_Num:
  assumes "js_mul a b = Num x"
  shows "\<exists>p q. a = Num p \<and> b = Num q \<and> x = p * q"
  using assms by (cases a; cases b) (auto split: if_splits)

lemma js_floor_Num:
  assumes "js_floor a = Num x"
  shows "\<exists>p. a = Num p \<and> x = of_int \<lfloor>p\<rfloor>"
  using assms by (cases a) auto

lemma processingFrameRate_Num:
  assumes "processingFrameRate v = Num r"
  shows "r \<noteq> 0 \<and> r \<le> 30"
proof (cases "captureFrameRate v")
  case None
  with assms show ?thesis by (simp add: processingFrameRate_def)
next
  case (Some c)
  with assms show ?thesis
    by (cases c) (auto simp add: processingFrameRate_def split: if_splits)
qed

lemma sample_count_valid:
  assumes "\<not> js_le0 (totalFramesToProcess v)" and "isFinite (totalFramesToProcess v)"
  shows "\<exists>d r. duration v = Num d \<and> processingFrameRate v = Num r \<and> r \<noteq> 0 \<and> r \<le> 30
           \<and> totalFramesToProcess v = Num (of_int \<lfloor>d * r\<rfloor>) \<and> 0 < \<lfloor>d * r\<rfloor>
           \<and> finite_value (totalFramesToProcess v) = of_nat (nat \<lfloor>d * r\<rfloor>)
           \<and> (\<forall>i. js_index_div i (processingFrameRate v) = Num (of_nat i / r))"
proof -
  from assms(2) obtain q where q: "totalFramesToProcess v = Num q"
    by (cases "totalFramesToProcess v") auto
  from js_floor_Num [OF q [unfolded totalFramesToProcess_def]]
  obtain x where x: "js_mul (duration v) (processingFrameRate v) = Num x" and qx: "q = of_int \<lfloor>x\<rfloor>"
    by blast
  from js_mul_Num [OF x] obtain d r where d: "duration v = Num d"
    and r: "processingFrameRate v = Num r" and xdr: "x = d * r"
    by blast
  from assms(1) q have "0 < q" by simp
  with qx xdr have pos: "0 < \<lfloor>d * r\<rfloor>" by simp
  then have "(of_int \<lfloor>d * r\<rfloor> :: rat) = of_nat (nat \<lfloor>d * r\<rfloor>)"
    by simp
  with q qx xdr have fv: "finite_value (totalFramesToProcess v) = of_nat (nat \<lfloor>d * r\<rfloor>)"
    by simp
  from processingFrameRate_Num [OF r] have r0: "r \<noteq> 0" and r30: "r \<le> 30"
    by simp_all
  have "\<forall>i. js_index_div i (processingFrameRate v) = Num (of_nat i / r)"
    using r r0 by simp
  with d r r0 r30 q qx xdr pos fv show ?thesis
    by blast
qed



lemma processVideo_run:
  assumes valid: "\<not> js_le0 (totalFramesToProcess v)" "isFinite (totalFramesToProcess v)"
    and dims: "resolve_dimensions v = Resolved d"
    and settle: "\<forall>i<nat \<lfloor>finite_value (totalFramesToProcess v)\<rfloor>.
                   frame_at v (js_index_div i (processingFrameRate v)) \<noteq> Pending"
  shows "\<exists>fs st'. processVideo v region st
             = (if fs = [] then Rejected NoFramesProcessed
                else Resolved (fs, processingFrameRate v), st')
           \<and> seeks st' = seeks st @ map (\<lambda>i. js_index_div i (processingFrameRate v))
                                      [0..<nat \<lfloor>finite_value (totalFramesToProcess v)\<rfloor>]
           \<and> map (frame_content st') fs
               = map (blurred_frame region)
                   (extracted v (processingFrameRate v)
                      [0..<nat \<lfloor>finite_value (totalFramesToProcess v)\<rfloor>])
           \<and> filter is_frame_error (console st')
               = filter is_frame_error (console st)
                 @ failures v (processingFrameRate v)
                     [0..<nat \<lfloor>finite_value (totalFramesToProcess v)\<rfloor>]"
proof -
  define n where "n = nat \<lfloor>finite_value (totalFramesToProcess v)\<rfloor>"
  from sample_count_valid [OF valid] have fv: "finite_value (totalFramesToProcess v) = of_nat n"
    unfolding n_def by auto
  have s: "\<forall>j. 0 \<le> j \<and> j < n \<longrightarrow> frame_at v (js_index_div j (processingFrameRate v)) \<noteq> Pending"
    using settle by (simp add: n_def)
  have a: "\<forall>f\<in>set []. data f < length (heap st)" by simp
  from frame_loop_run [OF s a, of region]
  obtain fs st' where r: "frame_loop v region (processingFrameRate v) (of_nat n) 0 [] st = (Some fs, st')"
    and a1: "seeks st' = seeks st @ map (\<lambda>j. js_index_div j (processingFrameRate v)) [0..<n]"
    and a3: "map (frame_content st') fs
          = map (frame_content st) [] @ map (blurred_frame region) (extracted v (processingFrameRate v) [0..<n])"
    and a4: "filter is_frame_error (console st')
          = filter is_frame_error (console st) @ failures v (processingFrameRate v) [0..<n]"
    by blast
  have "processVideo v region st
      = (if fs = [] then Rejected NoFramesProcessed else Resolved (fs, processingFrameRate v), st')"
    using valid dims by (simp add: processVideo_def fv r)
  with a1 a3 a4 show ?thesis
    unfolding n_def [symmetric] by auto
qed


subsection \<open>The scenario sources\<close>

lemma fails_at_5_settles: "fails_at_5 t \<noteq> Pending"
  by (simp add: fails_at_5_def)

lemma ten_frames_count: "totalFramesToProcess ten_frames = Num 10"
  by (simp add: totalFramesToProcess_def processingFrameRate_def ten_frames_def)

lemma ten_frames_rate: "processingFrameRate ten_frames = Num 30"
  by (simp add: processingFrameRate_def ten_frames_def)

lemma ten_frames_dims: "resolve_dimensions ten_frames = Resolved (2, 2)"
  by (simp add: resolve_dimensions_def ten_frames_def)

lemma ten_frames_indices: "sample_indices ten_frames = [0, 1, 2, 3, 4, 5, 6, 7, 8, 9]"
  unfolding sample_indices_def ten_frames_count by code_simp




lemma ten_frames_source: "frame_at ten_frames = fails_at_5"
  by (simp add: ten_frames_def)

lemma ten_frames_extracted:
  "extracted ten_frames (Num 30) [0, 1, 2, 3, 4, 5, 6, 7, 8, 9]
   = [checkerboard, checkerboard, checkerboard, checkerboard, checkerboard,
      checkerboard, checkerboard, checkerboard, checkerboard]"
  by (simp add: ten_frames_source fails_at_5_def)

lemma ten_frames_failures:
  "failures ten_frames (Num 30) [0, 1, 2, 3, 4, 5, 6, 7, 8, 9]
   = [FrameErrorLogged (Num (5 / 30)) ExtractionFailed]"
  by (simp add: ten_frames_source fails_at_5_def)

subsection \<open>Evaluations on small images\<close>

lemma counterexample_pixel:
  "pixel_out [0, 0, 0, 255, 0, 0, 0, 255, 1, 0, 0, 255] 3 1 2 0 0 0 = 0"
  by code_simp

lemma counterexample_mean:
  "channel_mean [0, 0, 0, 255, 0, 0, 0, 255, 1, 0, 0, 255] 3 1 2 0 0 0 = 1 / 3"
  by code_simp

lemma counterexample_samples: "samples 3 1 2 0 0 = [(0, 0), (1, 0), (2, 0)]"
  by code_simp

lemma witness_samples_none: "samples 3 1 (- 1) 0 0 = []"
  by code_simp

lemma once_blurred:
  "blur_spec [0, 0, 0, 255, 0, 0, 0, 255, 255, 30, 7, 255] 3 1 (calculateBlurRadius 1 1) 0 0 1 1
   = [85, 10, 2, 255, 0, 0, 0, 255, 255, 30, 7, 255]"
  by code_simp

lemma twice_blurred:
  "blur_spec [85, 10, 2, 255, 0, 0, 0, 255, 255, 30, 7, 255] 3 1 (calculateBlurRadius 1 1) 0 0 1 1
   = [113, 13, 3, 255, 0, 0, 0, 255, 255, 30, 7, 255]"
  by code_simp

section \<open>Pixels inside the region\<close>

text \<open>
  Claim C1 says that the red, green and blue outputs equal the arithmetic mean over the
  in-bounds samples. The output is a \<open>Uint8ClampedArray\<close> element: on a 3 by 1 image
  whose red samples are 0, 0 and 1, blurring the region of pixel \<open>(0, 0)\<close> alone (radius
  2, as the entry points derive it for a 1 by 1 region) sums three in-bounds samples, the
  mean is \<open>1 / 3\<close>, and the stored red sample is 0.
\<close>

theorem stored_mean_is_rounded_counterexample:
  "in_region 0 0 1 1 0 0
   \<and> calculateBlurRadius 1 1 = 2
   \<and> samples 3 1 2 0 0 = [(0, 0), (1, 0), (2, 0)]
   \<and> channel_mean [0, 0, 0, 255, 0, 0, 0, 255, 1, 0, 0, 255] 3 1 2 0 0 0 = 1 / 3
   \<and> applyBlurEffect 1 0 (int_region 0 0 1 1) 2 3 1
        [[0, 0, 0, 255, 0, 0, 0, 255, 1, 0, 0, 255], [0, 0, 0, 255, 0, 0, 0, 255, 1, 0, 0, 255]]
        ! 1 ! (pixel_index 3 0 0 + 0) = 0
   \<and> of_nat (unat (applyBlurEffect 1 0 (int_region 0 0 1 1) 2 3 1
         [[0, 0, 0, 255, 0, 0, 0, 255, 1, 0, 0, 255], [0, 0, 0, 255, 0, 0, 0, 255, 1, 0, 0, 255]]
         ! 1 ! (pixel_index 3 0 0 + 0)))
       \<noteq> channel_mean [0, 0, 0, 255, 0, 0, 0, 255, 1, 0, 0, 255] 3 1 2 0 0 0"
proof -
  let ?src = "[0, 0, 0, 255, 0, 0, 0, 255, 1, 0, 0, 255 :: byte]"
  have out: "applyBlurEffect 1 0 (int_region 0 0 1 1) 2 3 1 [?src, ?src] ! 1 ! (pixel_index 3 0 0 + 0)
      = 0"
    using applyBlurEffect_nth [of 0 1 "[?src, ?src]" 3 1 0 1 0 1 0 0 0 2] counterexample_pixel
    by (simp add: in_region_def)
  have rad: "calculateBlurRadius 1 1 = 2"
    by (simp add: calculateBlurRadius_def Let_def)
  have inr: "in_region 0 0 1 1 0 0"
    by (simp add: in_region_def)
  have ne: "rat_of_nat (unat (0 :: byte)) \<noteq> 1 / 3"
    by simp
  from inr rad counterexample_samples counterexample_mean out ne show ?thesis
    unfolding out counterexample_mean by blast
qed

text \<open>
  Claim C1, amended. For a region with natural-number fields inside the image, source
  and target buffers of \<open>4 * W * H\<close> samples at different addresses, and a pixel of the
  region: the output alpha is the source alpha at that pixel; when at least one kernel
  offset in \<open>[-radius, radius]\<close> squared has its sample inside the image, the red, green
  and blue outputs are the arithmetic mean of the source channel over exactly those
  samples (the divisor is their number), converted as a \<open>Uint8ClampedArray\<close> store converts
  it (rounded to the nearest integer, a tie to the even one); when there is no such
  sample, all four outputs are the source samples.
\<close>

theorem blurred_pixel_is_rounded_mean:
  assumes st: "s \<noteq> t" and t: "t < length h"
    and ls: "length (h ! s) = 4 * W * H" and lt: "length (h ! t) = 4 * W * H"
    and xe: "x0 + w \<le> W" and ye: "y0 + hh \<le> H"
    and inr: "in_region x0 y0 w hh px py"
  shows "applyBlurEffect t s (int_region x0 y0 w hh) radius W H h ! t ! (pixel_index W px py + 3)
           = h ! s ! (pixel_index W px py + 3)
         \<and> (samples W H radius px py \<noteq> [] \<longrightarrow>
               (\<forall>c<3. applyBlurEffect t s (int_region x0 y0 w hh) radius W H h ! t
                          ! (pixel_index W px py + c)
                        = ToUint8Clamp (Some (channel_mean (h ! s) W H radius px py c))))
         \<and> (samples W H radius px py = [] \<longrightarrow>
               (\<forall>c<4. applyBlurEffect t s (int_region x0 y0 w hh) radius W H h ! t
                          ! (pixel_index W px py + c)
                        = h ! s ! (pixel_index W px py + c)))"
proof -
  from inr xe ye have px: "px < W" and py: "py < H"
    by (simp_all add: in_region_def)
  have val: "applyBlurEffect t s (int_region x0 y0 w hh) radius W H h ! t ! (pixel_index W px py + c)
      = pixel_out (h ! s) W H radius px py c" if "c < 4" for c
    using applyBlurEffect_nth [OF st t ls lt xe ye px py that, of radius] inr by simp
  have a: "applyBlurEffect t s (int_region x0 y0 w hh) radius W H h ! t ! (pixel_index W px py + 3)
      = h ! s ! (pixel_index W px py + 3)"
    using val [of 3] by (simp add: pixel_out_def)
  have b: "applyBlurEffect t s (int_region x0 y0 w hh) radius W H h ! t ! (pixel_index W px py + c)
      = ToUint8Clamp (Some (channel_mean (h ! s) W H radius px py c))"
    if "samples W H radius px py \<noteq> []" "c < 3" for c
    using val [of c] that by (simp add: pixel_out_def)
  have c: "applyBlurEffect t s (int_region x0 y0 w hh) radius W H h ! t ! (pixel_index W px py + c)
      = h ! s ! (pixel_index W px py + c)"
    if "samples W H radius px py = []" "c < 4" for c
    using val [of c] that by (simp add: pixel_out_def)
  from a b c show ?thesis by blast
qed

theorem blurred_pixel_is_rounded_mean_witness:
  "in_region 0 0 1 1 0 0
   \<and> applyBlurEffect 1 0 (int_region 0 0 1 1) 2 3 1
        [[0, 0, 0, 255, 0, 0, 0, 255, 1, 0, 0, 255], [0, 0, 0, 255, 0, 0, 0, 255, 1, 0, 0, 255]]
        ! 1 ! (pixel_index 3 0 0 + 0)
      = ToUint8Clamp (Some (channel_mean [0, 0, 0, 255, 0, 0, 0, 255, 1, 0, 0, 255] 3 1 2 0 0 0))
   \<and> applyBlurEffect 1 0 (int_region 0 0 1 1) (- 1) 3 1
        [[0, 0, 0, 255, 0, 0, 0, 255, 1, 0, 0, 255], [9, 9, 9, 9, 0, 0, 0, 255, 1, 0, 0, 255]]
        ! 1 ! (pixel_index 3 0 0 + 0)
      = [0, 0, 0, 255, 0, 0, 0, 255, 1, 0, 0, 255] ! (pixel_index 3 0 0 + 0)"
proof -
  let ?src = "[0, 0, 0, 255, 0, 0, 0, 255, 1, 0, 0, 255 :: byte]"
  let ?tgt = "[9, 9, 9, 9, 0, 0, 0, 255, 1, 0, 0, 255 :: byte]"
  have inr: "in_region 0 0 1 1 0 0" by (simp add: in_region_def)
  have ne: "samples 3 1 2 0 0 \<noteq> []" unfolding counterexample_samples by simp
  have h1: "(0::nat) \<noteq> 1" "(1::nat) < length [?src, ?src]" "(1::nat) < length [?src, ?tgt]"
    "length ([?src, ?src] ! 0) = 4 * 3 * 1" "length ([?src, ?src] ! 1) = 4 * 3 * 1"
    "length ([?src, ?tgt] ! 0) = 4 * 3 * 1" "length ([?src, ?tgt] ! 1) = 4 * 3 * 1"
    "(0::nat) + 1 \<le> 3" "(0::nat) + 1 \<le> 1"
    by simp_all
  note T2 = blurred_pixel_is_rounded_mean
    [OF h1(1) h1(2) h1(4) h1(5) h1(8) h1(9) inr, of 2]
  note Tm = blurred_pixel_is_rounded_mean
    [OF h1(1) h1(3) h1(6) h1(7) h1(8) h1(9) inr, of "- 1"]
  have A: "applyBlurEffect 1 0 (int_region 0 0 1 1) 2 3 1 [?src, ?src] ! 1 ! (pixel_index 3 0 0 + 0)
      = ToUint8Clamp (Some (channel_mean ?src 3 1 2 0 0 0))"
    using T2 [THEN conjunct2, THEN conjunct1, rule_format, OF ne, of 0] by simp
  have B: "applyBlurEffect 1 0 (int_region 0 0 1 1) (- 1) 3 1 [?src, ?tgt] ! 1 ! (pixel_index 3 0 0 + 0)
      = ?src ! (pixel_index 3 0 0 + 0)"
    using Tm [THEN conjunct2, THEN conjunct2, rule_format, OF witness_samples_none, of 0] by simp
  from inr A B show ?thesis by blast
qed

section \<open>Pixels outside the region\<close>

text \<open>
  Claim C2. For a valid region (natural-number fields, positive width and height, inside
  the image) and a source buffer of \<open>4 * width * height\<close> samples, both entry points
  return an image of the input's width and height whose buffer has the input buffer's
  length, and every sample of every pixel outside the region equals the source sample.
\<close>

theorem outside_region_untouched:
  assumes s: "data img < length (heap st)"
    and wf: "length (heap st ! data img) = 4 * width img * height img"
    and v: "0 < w" "0 < hh" "x0 + w \<le> width img" "y0 + hh \<le> height img"
  shows "fst (removeWatermark img (int_region x0 y0 w hh) st)
           = Inr \<lparr>data = length (heap st), width = width img, height = height img\<rparr>
         \<and> fst (blurWatermark img (int_region x0 y0 w hh) st)
           = \<lparr>data = length (heap st), width = width img, height = height img\<rparr>
         \<and> length (heap (snd (removeWatermark img (int_region x0 y0 w hh) st)) ! length (heap st))
           = length (heap st ! data img)
         \<and> length (heap (snd (blurWatermark img (int_region x0 y0 w hh) st)) ! length (heap st))
           = length (heap st ! data img)
         \<and> (\<forall>px py c. px < width img \<and> py < height img \<and> c < 4
               \<and> \<not> in_region x0 y0 w hh px py \<longrightarrow>
               heap (snd (removeWatermark img (int_region x0 y0 w hh) st)) ! length (heap st)
                   ! (pixel_index (width img) px py + c)
                 = heap st ! data img ! (pixel_index (width img) px py + c)
               \<and> heap (snd (blurWatermark img (int_region x0 y0 w hh) st)) ! length (heap st)
                   ! (pixel_index (width img) px py + c)
                 = heap st ! data img ! (pixel_index (width img) px py + c))"
  unfolding removeWatermark_spec [OF assms] blurWatermark_spec [OF assms]
  using wf by (simp add: blur_spec_nth)

theorem outside_region_untouched_witness:
  "data \<lparr>data = 0, width = 3, height = 1\<rparr>
     < length (heap \<lparr>heap = [[0, 0, 0, 255, 0, 0, 0, 255, 255, 30, 7, 255]], console = [], seeks = []\<rparr>)
   \<and> \<not> in_region 0 0 1 1 2 0
   \<and> heap (snd (removeWatermark \<lparr>data = 0, width = 3, height = 1\<rparr> (int_region 0 0 1 1)
         \<lparr>heap = [[0, 0, 0, 255, 0, 0, 0, 255, 255, 30, 7, 255]], console = [], seeks = []\<rparr>))
       ! 1 ! (pixel_index 3 2 0 + 1) = 30
   \<and> fst (blurWatermark \<lparr>data = 0, width = 3, height = 1\<rparr> (int_region 0 0 1 1)
         \<lparr>heap = [[0, 0, 0, 255, 0, 0, 0, 255, 255, 30, 7, 255]], console = [], seeks = []\<rparr>)
       = \<lparr>data = 1, width = 3, height = 1\<rparr>"
proof -
  let ?img = "\<lparr>data = 0, width = 3, height = 1\<rparr>"
  let ?st = "\<lparr>heap = [[0, 0, 0, 255, 0, 0, 0, 255, 255, 30, 7, 255 :: byte]], console = [], seeks = []\<rparr>"
  have a: "data ?img < length (heap ?st)" by simp
  have b: "length (heap ?st ! data ?img) = 4 * width ?img * height ?img" by simp
  have c: "(0::nat) < 1" "0 + 1 \<le> width ?img" "0 + 1 \<le> height ?img" by simp_all
  have d: "\<not> in_region 0 0 1 1 2 0" by (simp add: in_region_def)
  note T = outside_region_untouched [OF a b c(1) c(1) c(2) c(3)]
  from T have "fst (blurWatermark ?img (int_region 0 0 1 1) ?st) = \<lparr>data = 1, width = 3, height = 1\<rparr>"
    by simp
  moreover from T have "\<forall>px py c. px < width ?img \<and> py < height ?img \<and> c < 4
               \<and> \<not> in_region 0 0 1 1 px py \<longrightarrow>
               heap (snd (removeWatermark ?img (int_region 0 0 1 1) ?st)) ! length (heap ?st)
                   ! (pixel_index (width ?img) px py + c)
                 = heap ?st ! data ?img ! (pixel_index (width ?img) px py + c)"
    by blast
  from this [rule_format, of 2 0 1] d
  have "heap (snd (removeWatermark ?img (int_region 0 0 1 1) ?st)) ! 1 ! (pixel_index 3 2 0 + 1) = 30"
    by (simp add: pixel_index_def)
  ultimately show ?thesis
    using a d by blast
qed

section \<open>Properties of the blur radius\<close>


section \<open>A uniform image is a fixed point\<close>

text \<open>
  Claim C4. When every pixel of the source has the same colour \<open>(r, g, b, a)\<close>, blurring
  any valid region returns a buffer equal to the source buffer, on both entry points: the
  mean of equal samples is that sample, and it is stored unchanged. The instance of the
  specification (a 100 by 100 image of colour \<open>(200, 100, 50, 255)\<close>, region
  \<open>{x: 20, y: 20, width: 30, height: 30}\<close>) follows the theorem.
\<close>

theorem uniform_colour_fixed_point:
  assumes s: "data img < length (heap st)"
    and u: "heap st ! data img = uniform (width img * height img) r g b a"
    and v: "0 < w" "0 < hh" "x0 + w \<le> width img" "y0 + hh \<le> height img"
  shows "fst (removeWatermark img (int_region x0 y0 w hh) st)
           = Inr \<lparr>data = length (heap st), width = width img, height = height img\<rparr>
         \<and> heap (snd (removeWatermark img (int_region x0 y0 w hh) st)) ! length (heap st)
           = uniform (width img * height img) r g b a
         \<and> fst (blurWatermark img (int_region x0 y0 w hh) st)
           = \<lparr>data = length (heap st), width = width img, height = height img\<rparr>
         \<and> heap (snd (blurWatermark img (int_region x0 y0 w hh) st)) ! length (heap st)
           = uniform (width img * height img) r g b a"
proof -
  have wf: "length (heap st ! data img) = 4 * width img * height img"
    unfolding u by simp
  show ?thesis
    unfolding removeWatermark_spec [OF s wf v] blurWatermark_spec [OF s wf v]
    unfolding u blur_spec_uniform by simp
qed

theorem uniform_colour_fixed_point_witness:
  "heap (snd (removeWatermark \<lparr>data = 0, width = 100, height = 100\<rparr> (int_region 20 20 30 30)
      \<lparr>heap = [uniform (100 * 100) 200 100 50 255], console = [], seeks = []\<rparr>)) ! 1
   = uniform (100 * 100) 200 100 50 255
   \<and> in_region 20 20 30 30 49 20
   \<and> map (\<lambda>c. heap (snd (removeWatermark \<lparr>data = 0, width = 100, height = 100\<rparr>
        (int_region 20 20 30 30)
        \<lparr>heap = [uniform (100 * 100) 200 100 50 255], console = [], seeks = []\<rparr>)) ! 1
        ! (pixel_index 100 49 20 + c)) [0, 1, 2, 3]
     = [200, 100, 50, 255]"
proof -
  let ?img = "\<lparr>data = 0, width = 100, height = 100\<rparr>"
  let ?st = "\<lparr>heap = [uniform (100 * 100) 200 100 50 255], console = [], seeks = []\<rparr>"
  have a: "data ?img < length (heap ?st)" by simp
  have b: "heap ?st ! data ?img = uniform (width ?img * height ?img) 200 100 50 255" by simp
  have c: "(0::nat) < 30" "20 + 30 \<le> width ?img" "20 + 30 \<le> height ?img" by simp_all
  have "heap (snd (removeWatermark ?img (int_region 20 20 30 30) ?st)) ! length (heap ?st)
      = uniform (width ?img * height ?img) 200 100 50 255"
    using uniform_colour_fixed_point [OF a b c(1) c(1) c(2) c(3)] by blast
  then have E: "heap (snd (removeWatermark ?img (int_region 20 20 30 30) ?st)) ! 1
      = uniform (100 * 100) 200 100 50 255"
    by simp
  have p: "(49::nat) < 100" "(20::nat) < 100" "(0::nat) < 4" "(1::nat) < 4" "(2::nat) < 4" "(3::nat) < 4"
    by simp_all
  have "in_region 20 20 30 30 49 20"
    by (simp add: in_region_def)
  moreover have "map (\<lambda>c. uniform (100 * 100) 200 100 50 255 ! (pixel_index 100 49 20 + c))
      [0, 1, 2, 3] = [200, 100, 50, 255]"
    using uniform_pixel [OF p(1) p(2) p(3), of 200 100 50 255]
      uniform_pixel [OF p(1) p(2) p(4), of 200 100 50 255]
      uniform_pixel [OF p(1) p(2) p(5), of 200 100 50 255]
      uniform_pixel [OF p(1) p(2) p(6), of 200 100 50 255]
    by simp
  ultimately show ?thesis
    unfolding E by simp
qed

section \<open>Invalid regions\<close>



section \<open>Frames that fail to extract\<close>

text \<open>
  Claim C6. In a run that reaches the frame loop and whose extractions all settle, every
  sample index is requested in order, whether or not earlier ones failed; each failed
  extraction leaves one entry on the console, in sample order; the frames handed to
  \<open>assembleVideo\<close> are the blurred successfully extracted frames, in sample order; and the
  run fails with the no-frames error exactly when no extraction succeeded. In the
  scenario of ten frames with a failure at index 5 alone, nine frames are handed over.
\<close>

theorem failed_frames_are_skipped:
  assumes valid: "\<not> js_le0 (totalFramesToProcess v)" "isFinite (totalFramesToProcess v)"
    and dims: "resolve_dimensions v = Resolved d"
    and settle: "\<forall>i\<in>set (sample_indices v).
                   frame_at v (js_index_div i (processingFrameRate v)) \<noteq> Pending"
  shows "seeks (snd (processVideo v region st))
           = seeks st @ map (\<lambda>i. js_index_div i (processingFrameRate v)) (sample_indices v)
         \<and> filter is_frame_error (console (snd (processVideo v region st)))
           = filter is_frame_error (console st)
             @ failures v (processingFrameRate v) (sample_indices v)
         \<and> (extracted v (processingFrameRate v) (sample_indices v) = [] \<longrightarrow>
              fst (processVideo v region st) = Rejected NoFramesProcessed)
         \<and> (extracted v (processingFrameRate v) (sample_indices v) \<noteq> [] \<longrightarrow>
              (\<exists>frames. fst (processVideo v region st) = Resolved (frames, processingFrameRate v)
                 \<and> map (frame_content (snd (processVideo v region st))) frames
                   = map (blurred_frame region)
                       (extracted v (processingFrameRate v) (sample_indices v))))
         \<and> (fst (processVideo v region st) = Rejected NoFramesProcessed)
           = (extracted v (processingFrameRate v) (sample_indices v) = [])"
proof -
  from settle have settle': "\<forall>i<nat \<lfloor>finite_value (totalFramesToProcess v)\<rfloor>.
      frame_at v (js_index_div i (processingFrameRate v)) \<noteq> Pending"
    by (simp add: sample_indices_def)
  from processVideo_run [OF valid dims settle', of region st]
  obtain fs st' where pv: "processVideo v region st
             = (if fs = [] then Rejected NoFramesProcessed
                else Resolved (fs, processingFrameRate v), st')"
    and a1: "seeks st' = seeks st @ map (\<lambda>i. js_index_div i (processingFrameRate v))
                                      (sample_indices v)"
    and a2: "map (frame_content st') fs
               = map (blurred_frame region)
                   (extracted v (processingFrameRate v) (sample_indices v))"
    and a3: "filter is_frame_error (console st')
               = filter is_frame_error (console st)
                 @ failures v (processingFrameRate v) (sample_indices v)"
    unfolding sample_indices_def [symmetric] by blast
  from a2 have em: "(fs = []) = (extracted v (processingFrameRate v) (sample_indices v) = [])"
    by (metis map_is_Nil_conv)
  show ?thesis
  proof (cases "fs = []")
    case True
    with pv a1 a3 em show ?thesis by simp
  next
    case False
    with pv a1 a2 a3 em show ?thesis by simp
  qed
qed

theorem failed_frames_are_skipped_witness:
  "sample_indices ten_frames = [0, 1, 2, 3, 4, 5, 6, 7, 8, 9]
   \<and> frame_at ten_frames (js_index_div 5 (processingFrameRate ten_frames))
       = Rejected ExtractionFailed
   \<and> (\<exists>frames. fst (processVideo ten_frames (int_region 0 0 1 1) empty_state)
                  = Resolved (frames, Num 30)
        \<and> length frames = 9
        \<and> map (frame_content (snd (processVideo ten_frames (int_region 0 0 1 1) empty_state)))
             frames
           = replicate 9 (blurred_frame (int_region 0 0 1 1) checkerboard))
   \<and> filter is_frame_error
        (console (snd (processVideo ten_frames (int_region 0 0 1 1) empty_state)))
       = [FrameErrorLogged (Num (5 / 30)) ExtractionFailed]"
proof -
  have valid: "\<not> js_le0 (totalFramesToProcess ten_frames)" "isFinite (totalFramesToProcess ten_frames)"
    by (simp_all add: ten_frames_count)
  have settle: "\<forall>i\<in>set (sample_indices ten_frames).
      frame_at ten_frames (js_index_div i (processingFrameRate ten_frames)) \<noteq> Pending"
    by (simp add: ten_frames_source fails_at_5_settles)
  note T = failed_frames_are_skipped [OF valid ten_frames_dims settle,
      of "int_region 0 0 1 1" empty_state, unfolded ten_frames_rate ten_frames_indices
      ten_frames_extracted ten_frames_failures]
  from T obtain frames where
    f1: "fst (processVideo ten_frames (int_region 0 0 1 1) empty_state) = Resolved (frames, Num 30)"
    and f2: "map (frame_content (snd (processVideo ten_frames (int_region 0 0 1 1) empty_state)))
               frames
             = map (blurred_frame (int_region 0 0 1 1))
                 [checkerboard, checkerboard, checkerboard, checkerboard, checkerboard,
                  checkerboard, checkerboard, checkerboard, checkerboard]"
    by auto
  from f2 have "length (map (frame_content (snd (processVideo ten_frames (int_region 0 0 1 1)
      empty_state))) frames) = 9"
    by simp
  then have f3: "length frames = 9" by simp
  have f4: "map (frame_content (snd (processVideo ten_frames (int_region 0 0 1 1) empty_state)))
               frames
             = replicate 9 (blurred_frame (int_region 0 0 1 1) checkerboard)"
    unfolding f2 by (simp add: numeral_eq_Suc)
  have f5: "filter is_frame_error
        (console (snd (processVideo ten_frames (int_region 0 0 1 1) empty_state)))
       = [FrameErrorLogged (Num (5 / 30)) ExtractionFailed]"
    using T by (simp add: empty_state_def)
  have f6: "frame_at ten_frames (js_index_div 5 (processingFrameRate ten_frames))
       = Rejected ExtractionFailed"
    by (simp add: ten_frames_rate ten_frames_source fails_at_5_def)
  from ten_frames_indices f1 f3 f4 f5 f6 show ?thesis by blast
qed

section \<open>The sampling schedule\<close>




section \<open>The source buffer is never written\<close>

text \<open>
  Claim C8. Whatever the region, valid or not, every pixel array that existed before the
  call, the source among them, is the same after it. When the region passes validation the
  returned image's array is a newly allocated one, distinct from the source array, with
  the source's length, width and height; and for a valid region of the data model it is
  \<open>blur_spec\<close> of the source, each of whose samples is computed from the source as it was
  before the call, whatever the order in which the pixels are visited. (Given an invalid
  region the video path returns the frame object it was given, as claim C5 says.)
\<close>

theorem blur_keeps_source:
  assumes "data img < length (heap st)"
  shows "(\<forall>p<length (heap st). heap (snd (removeWatermark img r st)) ! p = heap st ! p)
         \<and> (\<forall>p<length (heap st). heap (snd (blurWatermark img r st)) ! p = heap st ! p)
         \<and> (\<forall>out. fst (removeWatermark img r st) = Inr out \<longrightarrow>
               data out = length (heap st) \<and> data out \<noteq> data img
               \<and> length (heap (snd (removeWatermark img r st))) = Suc (length (heap st))
               \<and> width out = width img \<and> height out = height img
               \<and> length (heap (snd (removeWatermark img r st)) ! data out)
                   = length (heap st ! data img))
         \<and> (\<not> region_invalid r (width img) (height img) \<longrightarrow>
               data (fst (blurWatermark img r st)) = length (heap st)
               \<and> data (fst (blurWatermark img r st)) \<noteq> data img
               \<and> length (heap (snd (blurWatermark img r st))) = Suc (length (heap st))
               \<and> width (fst (blurWatermark img r st)) = width img
               \<and> height (fst (blurWatermark img r st)) = height img
               \<and> length (heap (snd (blurWatermark img r st)) ! data (fst (blurWatermark img r st)))
                   = length (heap st ! data img))
         \<and> (\<forall>x0 y0 w hh.
               r = int_region x0 y0 w hh \<and> 0 < w \<and> 0 < hh
               \<and> x0 + w \<le> width img \<and> y0 + hh \<le> height img
               \<and> length (heap st ! data img) = 4 * width img * height img \<longrightarrow>
               heap (snd (removeWatermark img r st)) ! length (heap st)
                 = blur_spec (heap st ! data img) (width img) (height img)
                     (calculateBlurRadius (regionWidth r) (regionHeight r)) x0 y0 w hh
               \<and> heap (snd (blurWatermark img r st)) ! length (heap st)
                 = blur_spec (heap st ! data img) (width img) (height img)
                     (calculateBlurRadius (regionWidth r) (regionHeight r)) x0 y0 w hh)"
proof (cases "region_invalid r (width img) (height img)")
  case True
  then show ?thesis
    by (auto simp add: removeWatermark_invalid blurWatermark_invalid region_invalid_int)
next
  case False
  define h2 where "h2 = applyBlurEffect (length (heap st)) (data img) r
                     (calculateBlurRadius (regionWidth r) (regionHeight r))
                     (width img) (height img) (heap st @ [heap st ! data img])"
  have "writes_only (length (heap st)) (heap st @ [heap st ! data img]) h2"
    unfolding h2_def by (rule writes_only_applyBlurEffect)
  note fr = writes_only_fresh [OF this]
  have rw: "removeWatermark img r st =
      (Inr \<lparr>data = length (heap st), width = width img, height = height img\<rparr>, st\<lparr>heap := h2\<rparr>)"
    unfolding h2_def by (rule removeWatermark_valid [OF False])
  have bw: "blurWatermark img r st =
      (\<lparr>data = length (heap st), width = width img, height = height img\<rparr>, st\<lparr>heap := h2\<rparr>)"
    unfolding h2_def by (rule blurWatermark_valid [OF False])
  from assms have ne: "length (heap st) \<noteq> data img"
    by simp
  have sp: "heap (snd (removeWatermark img r st)) ! length (heap st)
        = blur_spec (heap st ! data img) (width img) (height img)
            (calculateBlurRadius (regionWidth r) (regionHeight r)) x0 y0 w hh
      \<and> heap (snd (blurWatermark img r st)) ! length (heap st)
        = blur_spec (heap st ! data img) (width img) (height img)
            (calculateBlurRadius (regionWidth r) (regionHeight r)) x0 y0 w hh"
    if r: "r = int_region x0 y0 w hh" and v: "0 < w" "0 < hh" "x0 + w \<le> width img"
      "y0 + hh \<le> height img" and wf: "length (heap st ! data img) = 4 * width img * height img"
    for x0 y0 w hh
  proof -
    have rad: "calculateBlurRadius (regionWidth r) (regionHeight r)
        = calculateBlurRadius (of_nat w) (of_nat hh)"
      by (simp add: r int_region_def)
    show ?thesis
      unfolding rad unfolding r
      using removeWatermark_spec(2) [OF assms wf v] blurWatermark_spec(2) [OF assms wf v]
      by simp
  qed
  have main: "(\<forall>p<length (heap st). heap (snd (removeWatermark img r st)) ! p = heap st ! p)
         \<and> (\<forall>p<length (heap st). heap (snd (blurWatermark img r st)) ! p = heap st ! p)
         \<and> (\<forall>out. fst (removeWatermark img r st) = Inr out \<longrightarrow>
               data out = length (heap st) \<and> data out \<noteq> data img
               \<and> length (heap (snd (removeWatermark img r st))) = Suc (length (heap st))
               \<and> width out = width img \<and> height out = height img
               \<and> length (heap (snd (removeWatermark img r st)) ! data out)
                   = length (heap st ! data img))
         \<and> (\<not> region_invalid r (width img) (height img) \<longrightarrow>
               data (fst (blurWatermark img r st)) = length (heap st)
               \<and> data (fst (blurWatermark img r st)) \<noteq> data img
               \<and> length (heap (snd (blurWatermark img r st))) = Suc (length (heap st))
               \<and> width (fst (blurWatermark img r st)) = width img
               \<and> height (fst (blurWatermark img r st)) = height img
               \<and> length (heap (snd (blurWatermark img r st)) ! data (fst (blurWatermark img r st)))
                   = length (heap st ! data img))"
    unfolding rw bw using fr ne False by auto
  from main sp show ?thesis
    by blast
qed

theorem blur_keeps_source_witness:
  "data \<lparr>data = 0, width = 1, height = 1\<rparr>
     < length (heap \<lparr>heap = [[9, 8, 7, 6]], console = [], seeks = []\<rparr>)
   \<and> heap (snd (removeWatermark \<lparr>data = 0, width = 1, height = 1\<rparr>
        \<lparr>regionX = 0, regionY = 0, regionWidth = 1, regionHeight = 1\<rparr>
        \<lparr>heap = [[9, 8, 7, 6]], console = [], seeks = []\<rparr>)) ! 0 = [9, 8, 7, 6]
   \<and> data (fst (blurWatermark \<lparr>data = 0, width = 1, height = 1\<rparr>
        \<lparr>regionX = 0, regionY = 0, regionWidth = 1, regionHeight = 1\<rparr>
        \<lparr>heap = [[9, 8, 7, 6]], console = [], seeks = []\<rparr>)) = 1"
  using blur_keeps_source
    [of "\<lparr>data = 0, width = 1, height = 1\<rparr>"
        "\<lparr>heap = [[9, 8, 7, 6]], console = [], seeks = []\<rparr>"
        "\<lparr>regionX = 0, regionY = 0, regionWidth = 1, regionHeight = 1\<rparr>"]
  by (simp add: region_invalid_iff)

section \<open>The blur is not idempotent\<close>

text \<open>
  Claim C9. There is a source buffer and a valid region on which blurring the blurred
  image again changes it: on the 3 by 1 image with pixels \<open>(0, 0, 0, 255)\<close>,
  \<open>(0, 0, 0, 255)\<close>, \<open>(255, 30, 7, 255)\<close> and the region of the first pixel alone, the first
  blur gives that pixel \<open>(85, 10, 2, 255)\<close> and the second gives it \<open>(113, 13, 3, 255)\<close>.
\<close>

theorem blur_not_idempotent:
  "\<exists>out1 st1 out2 st2.
     removeWatermark \<lparr>data = 0, width = 3, height = 1\<rparr> (int_region 0 0 1 1)
       \<lparr>heap = [[0, 0, 0, 255, 0, 0, 0, 255, 255, 30, 7, 255]], console = [], seeks = []\<rparr>
       = (Inr out1, st1)
     \<and> removeWatermark out1 (int_region 0 0 1 1) st1 = (Inr out2, st2)
     \<and> heap st1 ! data out1 = [85, 10, 2, 255, 0, 0, 0, 255, 255, 30, 7, 255]
     \<and> heap st2 ! data out2 = [113, 13, 3, 255, 0, 0, 0, 255, 255, 30, 7, 255]
     \<and> heap st2 ! data out2 \<noteq> heap st1 ! data out1"
proof -
  let ?src = "[0, 0, 0, 255, 0, 0, 0, 255, 255, 30, 7, 255 :: byte]"
  let ?img = "\<lparr>data = 0, width = 3, height = 1\<rparr>"
  let ?st = "\<lparr>heap = [?src], console = [], seeks = []\<rparr>"
  let ?R = "int_region 0 0 1 1"
  define out1 where "out1 = \<lparr>data = 1, width = 3, height = 1\<rparr>"
  define st1 where "st1 = snd (removeWatermark ?img ?R ?st)"
  define out2 where "out2 = \<lparr>data = 2, width = 3, height = 1\<rparr>"
  define st2 where "st2 = snd (removeWatermark out1 ?R st1)"
  have a: "data ?img < length (heap ?st)" by simp
  have b: "length (heap ?st ! data ?img) = 4 * width ?img * height ?img" by simp
  have c: "(0::nat) < 1" "0 + 1 \<le> width ?img" "0 + 1 \<le> height ?img" by simp_all
  have f1: "fst (removeWatermark ?img ?R ?st) = Inr out1"
    using removeWatermark_spec(1) [OF a b c(1) c(1) c(2) c(3)] by (simp add: out1_def)
  have h1: "heap st1 ! 1 = [85, 10, 2, 255, 0, 0, 0, 255, 255, 30, 7, 255]"
    using removeWatermark_spec(2) [OF a b c(1) c(1) c(2) c(3)] once_blurred
    by (simp add: st1_def)
  have l1: "length (heap st1) = 2"
    unfolding st1_def removeWatermark_int [OF a b c(1) c(1) c(2) c(3)]
    using writes_only_fresh(1) [OF writes_only_applyBlurEffect, of "[?src]"] by simp
  have a': "data out1 < length (heap st1)" by (simp add: out1_def l1)
  have "length (heap st1 ! 1) = 12"
    unfolding h1 by simp
  then have b': "length (heap st1 ! data out1) = 4 * width out1 * height out1"
    by (simp add: out1_def)
  have c': "0 + 1 \<le> width out1" "0 + 1 \<le> height out1" by (simp_all add: out1_def)
  have f2: "fst (removeWatermark out1 ?R st1) = Inr out2"
    using removeWatermark_spec(1) [OF a' b' c(1) c(1) c'(1) c'(2)] by (simp add: out1_def out2_def l1)
  have h2: "heap st2 ! 2 = [113, 13, 3, 255, 0, 0, 0, 255, 255, 30, 7, 255]"
    using removeWatermark_spec(2) [OF a' b' c(1) c(1) c'(1) c'(2)] twice_blurred
    unfolding st2_def [symmetric] l1 by (simp add: out1_def h1 [simplified])
  have "removeWatermark ?img ?R ?st = (Inr out1, st1)"
    using f1 by (simp add: st1_def prod_eq_iff)
  moreover have "removeWatermark out1 ?R st1 = (Inr out2, st2)"
    using f2 by (simp add: st2_def prod_eq_iff)
  moreover have "heap st1 ! data out1 = [85, 10, 2, 255, 0, 0, 0, 255, 255, 30, 7, 255]"
    using h1 by (simp add: out1_def)
  moreover have "heap st2 ! data out2 = [113, 13, 3, 255, 0, 0, 0, 255, 255, 30, 7, 255]"
    using h2 by (simp add: out2_def)
  moreover have "heap st2 ! data out2 \<noteq> heap st1 ! data out1"
    using h1 h2 by (simp add: out1_def out2_def)
  ultimately show ?thesis by blast
qed

section \<open>What validation checks\<close>



end
